theory Spec2Isabelle
  imports Complex_Main "HOL-Library.Word"
begin

section \<open>JavaScript values used by the sources\<close>

text \<open>
  A JavaScript number is modelled as an exact rational or one of the three special
  values; rounding of doubles is not modelled. Thrown errors are values: the
  constructor is the JavaScript error class, the string the static part of the message
  (interpolated values are left out).
\<close>

datatype number = Finite rat | NaN | PosInfinity | NegInfinity

datatype error = TypeError string | RangeError string | Error string

fun isInteger :: "number \<Rightarrow> bool" where
  "isInteger (Finite q) = (of_int \<lfloor>q\<rfloor> = q)"
| "isInteger _ = False"

fun isFinite :: "number \<Rightarrow> bool" where
  "isFinite (Finite q) = True"
| "isFinite _ = False"

text \<open>\<open>x <= 0\<close> and \<open>x < 0\<close> on numbers: every comparison with NaN is false.\<close>

fun le_zero :: "number \<Rightarrow> bool" where
  "le_zero (Finite q) = (q \<le> 0)"
| "le_zero NegInfinity = True"
| "le_zero _ = False"

fun lt_zero :: "number \<Rightarrow> bool" where
  "lt_zero (Finite q) = (q < 0)"
| "lt_zero NegInfinity = True"
| "lt_zero _ = False"

section \<open>core/command-queue.ts\<close>

text \<open>
  The closure returned by \<open>createCommandQueue\<close> owns the captured \<open>maxSize\<close> and
  the array \<open>queue\<close>; both are the fields of the state record. Each method takes the
  state and returns its result together with the state afterwards; a method that throws
  returns the error and the state as the throw left it.
\<close>

record 'a CommandQueue =
  maxSize :: int
  queue :: "'a list"

definition createCommandQueue :: "number \<Rightarrow> error + 'a CommandQueue" where
  "createCommandQueue m =
     (if \<not> isInteger m \<or> le_zero m
      then Inl (RangeError ''maxSize must be a positive integer'')
      else (case m of Finite q \<Rightarrow> Inr \<lparr>maxSize = \<lfloor>q\<rfloor>, queue = []\<rparr>
            | _ \<Rightarrow> Inl (RangeError ''maxSize must be a positive integer'')))"

definition enqueue :: "'a \<Rightarrow> 'a CommandQueue \<Rightarrow> (error + nat) \<times> 'a CommandQueue" where
  "enqueue cmd q =
     (if int (length (queue q)) \<ge> maxSize q
      then (Inl (RangeError ''Command queue is full, cannot enqueue''), q)
      else (let q' = q\<lparr>queue := queue q @ [cmd]\<rparr> in (Inr (length (queue q')), q')))"

definition dequeue :: "'a CommandQueue \<Rightarrow> 'a option \<times> 'a CommandQueue" where
  "dequeue q =
     (case queue q of [] \<Rightarrow> (None, q) | c # cs \<Rightarrow> (Some c, q\<lparr>queue := cs\<rparr>))"

definition size_queue :: "'a CommandQueue \<Rightarrow> nat" where
  "size_queue q = length (queue q)"

text \<open>A caller that enqueues the commands of a list one after the other, collecting
  what each call returned or threw.\<close>

fun enqueue_each :: "'a list \<Rightarrow> 'a CommandQueue \<Rightarrow> (error + nat) list \<times> 'a CommandQueue" where
  "enqueue_each [] q = ([], q)"
| "enqueue_each (c # cs) q =
     (let (r, q') = enqueue c q; (rs, q'') = enqueue_each cs q' in (r # rs, q''))"

section \<open>Strings\<close>

text \<open>
  A string of the language is the list of its UTF-16 code units. \<open>utf16\<close> gives the
  string of a literal of ASCII characters. \<open>trim\<close> removes the white space and line
  terminators of the language at both ends. \<open>js_split\<close> is \<open>split\<close> with a
  separator of one code unit: it never returns the empty list.
\<close>

type_synonym codeunit = "16 word"

type_synonym jsstring = "codeunit list"

definition cu :: "char \<Rightarrow> codeunit" where
  "cu c = of_char c"

definition utf16 :: "string \<Rightarrow> jsstring" where
  "utf16 s = map cu s"

definition isWhiteSpace :: "codeunit \<Rightarrow> bool" where
  "isWhiteSpace c =
     (c \<in> {0x09, 0x0A, 0x0B, 0x0C, 0x0D, 0x20, 0xA0, 0x1680, 0x2028, 0x2029, 0x202F,
            0x205F, 0x3000, 0xFEFF} \<or> (0x2000 \<le> c \<and> c \<le> 0x200A))"

definition trim :: "jsstring \<Rightarrow> jsstring" where
  "trim s = rev (dropWhile isWhiteSpace (rev (dropWhile isWhiteSpace s)))"

fun js_split :: "codeunit \<Rightarrow> jsstring \<Rightarrow> jsstring list" where
  "js_split d [] = [[]]"
| "js_split d (c # cs) =
     (let r = js_split d cs in if c = d then [] # r else (c # hd r) # tl r)"

definition startsWith :: "jsstring \<Rightarrow> jsstring \<Rightarrow> bool" where
  "startsWith s p = (take (length p) s = p)"

definition slice :: "jsstring \<Rightarrow> nat \<Rightarrow> jsstring" where
  "slice s n = drop n s"

definition stripTrailingSlashes :: "jsstring \<Rightarrow> jsstring" where
  "stripTrailingSlashes s = rev (dropWhile (\<lambda>c. c = cu CHR ''/'') (rev s))"

section \<open>MQTT client: matchTopic\<close>

text \<open>
  Indexing an array: \<open>None\<close> is the \<open>undefined\<close> that a read out of range gives.
\<close>

definition at_index :: "'a list \<Rightarrow> nat \<Rightarrow> 'a option" where
  "at_index xs i = (if i < length xs then Some (xs ! i) else None)"

text \<open>
  The two \<open>for\<close> loops of \<open>matchTopic\<close> are one loop with different bounds:
  \<open>levelsMatch p t i n\<close> runs the body for the indices from \<open>i\<close> below \<open>n\<close> and
  is false as soon as the body returns false.
\<close>

function levelsMatch :: "jsstring list \<Rightarrow> jsstring list \<Rightarrow> nat \<Rightarrow> nat \<Rightarrow> bool" where
  "levelsMatch patternLevels topicLevels i n =
     (if i < n
      then (if at_index patternLevels i \<noteq> Some (utf16 ''+'') \<and>
               at_index patternLevels i \<noteq> at_index topicLevels i
            then False
            else levelsMatch patternLevels topicLevels (i + 1) n)
      else True)"
  by pat_completeness auto
termination
  by (relation "measure (\<lambda>(pl, tl, i, n). n - i)") auto

declare levelsMatch.simps [simp del]

definition matchTopic :: "jsstring \<Rightarrow> jsstring \<Rightarrow> bool" where
  "matchTopic pattern topic =
     (if pattern = topic then True
      else (let patternLevels = js_split (cu CHR ''/'') pattern;
                topicLevels = js_split (cu CHR ''/'') topic
            in if at_index patternLevels (length patternLevels - 1) = Some (utf16 ''#'')
               then (if \<not> levelsMatch patternLevels topicLevels 0 (length patternLevels - 1)
                     then False
                     else length topicLevels \<ge> length patternLevels - 1)
               else if length patternLevels \<noteq> length topicLevels then False
               else levelsMatch patternLevels topicLevels 0 (length patternLevels)))"

subsection \<open>The matching rule as the specification words it\<close>

definition matchTopic_spec :: "jsstring \<Rightarrow> jsstring \<Rightarrow> bool" where
  "matchTopic_spec pattern topic =
     (let ps = js_split (cu CHR ''/'') pattern; ts = js_split (cu CHR ''/'') topic
      in pattern = topic \<or>
         (last ps = (utf16 ''#'') \<and> length ps - 1 \<le> length ts \<and>
            (\<forall>i < length ps - 1. ps ! i = (utf16 ''+'') \<or> ps ! i = ts ! i)) \<or>
         (last ps \<noteq> (utf16 ''#'') \<and> length ps = length ts \<and>
            (\<forall>i < length ps. ps ! i = (utf16 ''+'') \<or> ps ! i = ts ! i)))"

section \<open>adapters/mqtt/mqtt-adapter.ts\<close>

definition MIN_TOPIC_PARTS :: nat where "MIN_TOPIC_PARTS = 2"

definition DEVICE_ID_OFFSET :: nat where "DEVICE_ID_OFFSET = 2"

definition validateTopicInputs :: "jsstring \<Rightarrow> jsstring \<Rightarrow> error + unit" where
  "validateTopicInputs base topic =
     (if length (trim base) = 0 then Inl (TypeError ''base must be a non-empty string'')
      else if length (trim topic) = 0 then Inl (TypeError ''topic must be a non-empty string'')
      else Inr ())"

definition extractDeviceIdFromTopic :: "jsstring \<Rightarrow> jsstring option" where
  "extractDeviceIdFromTopic remainder =
     (let parts = js_split (cu CHR ''/'') remainder
      in if length parts < MIN_TOPIC_PARTS \<or> at_index parts (length parts - 1) \<noteq> Some (utf16 ''state'')
         then None
         else (let deviceId = parts ! (length parts - DEVICE_ID_OFFSET)
               in if length deviceId = 0 then None else Some deviceId))"

definition mapTopicToDeviceId :: "jsstring \<Rightarrow> jsstring \<Rightarrow> error + jsstring option" where
  "mapTopicToDeviceId base topic =
     (case validateTopicInputs base topic of
        Inl e \<Rightarrow> Inl e
      | Inr _ \<Rightarrow>
          (let normalizedBase = stripTrailingSlashes (trim base);
               normalizedTopic = trim topic;
               prefix = normalizedBase @ (utf16 ''/'')
           in if \<not> startsWith normalizedTopic prefix then Inr None
              else (let remainder = slice normalizedTopic (length prefix)
                    in Inr (extractDeviceIdFromTopic remainder))))"

subsection \<open>Notions used to state and prove the topic mapping\<close>

text \<open>
  \<open>js_join\<close> puts the separator back between segments. \<open>topicShape b t dv\<close> says that
  the topic \<open>t\<close> is the base \<open>b\<close>, a slash, any number of further segments, the
  non-empty segment \<open>dv\<close> and the final segment \<open>state\<close>; \<open>deviceSegment\<close> words
  the same in terms of the segments of the part after the base.
\<close>

fun js_join :: "codeunit \<Rightarrow> jsstring list \<Rightarrow> jsstring" where
  "js_join d [] = []"
| "js_join d [w] = w"
| "js_join d (w # ws) = w @ d # js_join d ws"

definition topicShape :: "jsstring \<Rightarrow> jsstring \<Rightarrow> jsstring \<Rightarrow> bool" where
  "topicShape b t dv \<longleftrightarrow>
     dv \<noteq> [] \<and> (cu CHR ''/'') \<notin> set dv \<and>
     (\<exists>pre. (pre = [] \<or> last pre = (cu CHR ''/'')) \<and> t = b @ (utf16 ''/'') @ pre @ dv @ (utf16 ''/state''))"

definition deviceSegment :: "jsstring \<Rightarrow> jsstring \<Rightarrow> jsstring option" where
  "deviceSegment b t =
     (let segments = js_split (cu CHR ''/'') (drop (length b + 1) t)
      in if take (length b + 1) t = b @ (utf16 ''/'') \<and> 2 \<le> length segments \<and>
            last segments = (utf16 ''state'') \<and> segments ! (length segments - 2) \<noteq> []
         then Some (segments ! (length segments - 2)) else None)"

section \<open>utils: toKebabCase, assertNonEmptyString; domain/device.ts: buildDeviceResourceUri\<close>










record ResourceInput =
  location :: jsstring
  friendlyName :: jsstring


subsection \<open>The slug as the specification words it\<close>






section \<open>domain/device.ts: mergeDeviceState\<close>

text \<open>
  Values and the object heap. An object is a reference into the heap; the heap cell holds
  the object's own enumerable data properties in insertion order. Arrays are values.
\<close>

datatype jsval =
    JUndefined | JNull | JBool bool | JNum number | JStr jsstring
  | JArr "jsval list" | JRef nat

type_synonym object = "(jsstring \<times> jsval) list"

type_synonym heap = "object list"

fun typeof :: "jsval \<Rightarrow> string" where
  "typeof JUndefined = ''undefined''"
| "typeof JNull = ''object''"
| "typeof (JBool b) = ''boolean''"
| "typeof (JNum n) = ''number''"
| "typeof (JStr s) = ''string''"
| "typeof (JArr xs) = ''object''"
| "typeof (JRef a) = ''object''"

fun isArray :: "jsval \<Rightarrow> bool" where
  "isArray (JArr xs) = True"
| "isArray _ = False"

function showNat :: "nat \<Rightarrow> jsstring" where
  "showNat n = (if n < 10 then [of_nat (48 + n)]
                else showNat (n div 10) @ [of_nat (48 + n mod 10)])"
  by pat_completeness auto
termination
  by (relation "measure id") auto

declare showNat.simps [simp del]

text \<open>The own enumerable string-keyed properties of a value, in enumeration order.\<close>

fun ownEnumerableEntries :: "heap \<Rightarrow> jsval \<Rightarrow> (jsstring \<times> jsval) list" where
  "ownEnumerableEntries h (JRef a) = (if a < length h then h ! a else [])"
| "ownEnumerableEntries h (JArr xs) = zip (map showNat [0..<length xs]) xs"
| "ownEnumerableEntries h (JStr s) = zip (map showNat [0..<length s]) (map (\<lambda>c. JStr [c]) s)"
| "ownEnumerableEntries h _ = []"

fun setProperty :: "jsstring \<Rightarrow> jsval \<Rightarrow> object \<Rightarrow> object" where
  "setProperty k v [] = [(k, v)]"
| "setProperty k v ((k', v') # ps) =
     (if k' = k then (k, v) # ps else (k', v') # setProperty k v ps)"

definition getProperty :: "object \<Rightarrow> jsstring \<Rightarrow> jsval" where
  "getProperty obj k = (case map_of obj k of None \<Rightarrow> JUndefined | Some v \<Rightarrow> v)"

fun getValueType :: "jsval \<Rightarrow> string" where
  "getValueType v = (if v = JNull then ''null'' else if isArray v then ''array'' else typeof v)"

definition validateStateObject :: "jsval \<Rightarrow> jsval \<Rightarrow> error + unit" where
  "validateStateObject prev patch =
     (if prev = JNull \<or> isArray prev \<or> typeof prev \<noteq> ''object''
      then Inl (TypeError (''prev must be a plain object, got: '' @ getValueType prev))
      else if patch = JNull \<or> patch = JUndefined
      then Inl (TypeError ''patch cannot be null or undefined'')
      else Inr ())"

text \<open>
  The assignment \<open>obj[key] = value\<close> on an object whose prototype is
  \<open>Object.prototype\<close>. It writes the own property, with one exception of the language:
  the name \<open>__proto__\<close>, when it is not an own property of the object, is found as the
  accessor that \<open>Object.prototype\<close> defines; its setter replaces the prototype of the
  object (for an object or null) or does nothing, and no own property is created.
\<close>

definition assignProperty :: "jsstring \<Rightarrow> jsval \<Rightarrow> object \<Rightarrow> object" where
  "assignProperty key v obj =
     (if key = (utf16 ''__proto__'') \<and> map_of obj key = None then obj else setProperty key v obj)"

fun mergeLoop :: "(jsstring \<times> jsval) list \<Rightarrow> nat \<Rightarrow> heap \<Rightarrow> heap" where
  "mergeLoop [] result h = h"
| "mergeLoop ((key, v) # rest) result h =
     mergeLoop rest result
       (if v \<noteq> JUndefined then h[result := assignProperty key v (h ! result)] else h)"

definition mergeDeviceState :: "jsval \<Rightarrow> jsval \<Rightarrow> heap \<Rightarrow> (error + jsval) \<times> heap" where
  "mergeDeviceState prev patch h =
     (case validateStateObject prev patch of
        Inl e \<Rightarrow> (Inl e, h)
      | Inr _ \<Rightarrow>
          (let result = length h;
               h1 = h @ [ownEnumerableEntries h prev];
               h2 = mergeLoop (ownEnumerableEntries h1 patch) result h1
           in (Inr (JRef result), h2)))"

section \<open>The Map of the language\<close>

text \<open>
  A \<open>Map\<close> keeps its entries in insertion order: it is the list of its entries.
  \<open>set\<close> on a key that is present replaces the value in place.
\<close>

fun Map_set :: "'k \<Rightarrow> 'v \<Rightarrow> ('k \<times> 'v) list \<Rightarrow> ('k \<times> 'v) list" where
  "Map_set k v [] = [(k, v)]"
| "Map_set k v ((k', v') # ps) =
     (if k' = k then (k, v) # ps else (k', v') # Map_set k v ps)"

definition Map_get :: "('k \<times> 'v) list \<Rightarrow> 'k \<Rightarrow> 'v option" where
  "Map_get m k = map_of m k"

definition Map_has :: "('k \<times> 'v) list \<Rightarrow> 'k \<Rightarrow> bool" where
  "Map_has m k = (map_of m k \<noteq> None)"

definition Map_keys :: "('k \<times> 'v) list \<Rightarrow> 'k list" where
  "Map_keys m = map fst m"

definition Map_values :: "('k \<times> 'v) list \<Rightarrow> 'v list" where
  "Map_values m = map snd m"

section \<open>domain/adapter-interface.ts\<close>

text \<open>
  What the contract check reads of an adapter: for each property whether it is missing,
  a string, a function (with its declared number of parameters) or anything else.
\<close>

datatype property = Missing | StringValue jsstring | FunctionValue nat | OtherValue

record AdapterObject =
  name :: property
  initialize :: property
  start :: property
  stop :: property
  getDeviceState :: property
  executeCommand :: property
  onDeviceStateChange :: property
  scanDevices :: property

datatype adapter = NotAnObject | Adapter AdapterObject

definition REQUIRED_METHODS :: "(string \<times> (AdapterObject \<Rightarrow> property)) list" where
  "REQUIRED_METHODS =
     [(''initialize'', initialize), (''start'', start), (''stop'', stop),
      (''getDeviceState'', getDeviceState), (''executeCommand'', executeCommand),
      (''onDeviceStateChange'', onDeviceStateChange)]"

definition EXPECTED_PARAMS :: nat where "EXPECTED_PARAMS = 2"

fun isFunction :: "property \<Rightarrow> bool" where
  "isFunction (FunctionValue n) = True"
| "isFunction _ = False"

definition validateAdapterName :: "AdapterObject \<Rightarrow> error + unit" where
  "validateAdapterName adapterObj =
     (case name adapterObj of
        StringValue s \<Rightarrow>
          if length (trim s) = 0
          then Inl (TypeError ''Adapter must have a non-empty name property'')
          else Inr ()
      | _ \<Rightarrow> Inl (TypeError ''Adapter must have a non-empty name property''))"

fun validateRequiredMethods_loop ::
  "(string \<times> (AdapterObject \<Rightarrow> property)) list \<Rightarrow> AdapterObject \<Rightarrow> error + unit" where
  "validateRequiredMethods_loop [] adapterObj = Inr ()"
| "validateRequiredMethods_loop ((methodName, sel) # rest) adapterObj =
     (if \<not> isFunction (sel adapterObj)
      then Inl (TypeError (''Adapter must implement method '' @ methodName @ '' as a function''))
      else validateRequiredMethods_loop rest adapterObj)"

definition validateRequiredMethods :: "AdapterObject \<Rightarrow> error + unit" where
  "validateRequiredMethods adapterObj = validateRequiredMethods_loop REQUIRED_METHODS adapterObj"

definition validateExecuteCommandParams :: "AdapterObject \<Rightarrow> error + unit" where
  "validateExecuteCommandParams adapterObj =
     (case executeCommand adapterObj of
        FunctionValue n \<Rightarrow>
          if n \<noteq> EXPECTED_PARAMS
          then Inl (TypeError ''Adapter method executeCommand must accept exactly 2 parameters'')
          else Inr ()
      | _ \<Rightarrow> Inr ())"

definition validateOptionalScanDevices :: "AdapterObject \<Rightarrow> error + unit" where
  "validateOptionalScanDevices adapterObj =
     (if scanDevices adapterObj \<noteq> Missing \<and> \<not> isFunction (scanDevices adapterObj)
      then Inl (TypeError ''Adapter property scanDevices, if present, must be a function'')
      else Inr ())"

definition andThen :: "error + unit \<Rightarrow> (error + unit) \<Rightarrow> error + unit" where
  "andThen a b = (case a of Inl e \<Rightarrow> Inl e | Inr _ \<Rightarrow> b)"

definition ensureAdapterImplements :: "adapter \<Rightarrow> error + unit" where
  "ensureAdapterImplements a =
     (case a of
        NotAnObject \<Rightarrow> Inl (TypeError ''Adapter must be a non-null object'')
      | Adapter adapterObj \<Rightarrow>
          andThen (validateAdapterName adapterObj)
            (andThen (validateRequiredMethods adapterObj)
              (andThen (validateExecuteCommandParams adapterObj)
                (validateOptionalScanDevices adapterObj))))"

section \<open>core/adapter-registry.ts\<close>

text \<open>
  The registry is the \<open>Map\<close> captured by the closure. \<open>register\<close> returns what the
  call returned or threw together with the registry afterwards.
\<close>

type_synonym AdapterRegistry = "(jsstring \<times> adapter) list"

definition createAdapterRegistry :: AdapterRegistry where
  "createAdapterRegistry = []"

definition register :: "jsstring \<Rightarrow> adapter \<Rightarrow> AdapterRegistry \<Rightarrow> (error + unit) \<times> AdapterRegistry" where
  "register nm a adapters =
     (if length (trim nm) = 0
      then (Inl (TypeError ''Adapter name must be a non-empty string''), adapters)
      else if Map_has adapters nm
      then (Inl (Error ''Adapter is already registered''), adapters)
      else (case ensureAdapterImplements a of
              Inl e \<Rightarrow> (Inl e, adapters)
            | Inr _ \<Rightarrow> (Inr (), Map_set nm a adapters)))"

definition get :: "jsstring \<Rightarrow> AdapterRegistry \<Rightarrow> adapter option" where
  "get nm adapters = Map_get adapters nm"

definition list :: "AdapterRegistry \<Rightarrow> jsstring list" where
  "list adapters = Map_keys adapters"

definition has :: "jsstring \<Rightarrow> AdapterRegistry \<Rightarrow> bool" where
  "has nm adapters = Map_has adapters nm"

text \<open>Any further sequence of register calls, whatever each returns.\<close>

fun register_all :: "(jsstring \<times> adapter) list \<Rightarrow> AdapterRegistry \<Rightarrow> AdapterRegistry" where
  "register_all [] adapters = adapters"
| "register_all ((nm, a) # others) adapters = register_all others (snd (register nm a adapters))"

section \<open>core/device-manager.ts\<close>

text \<open>
  The metadata of a device; \<open>deviceId\<close> is the field \<open>id\<close> (\<open>None\<close> when the
  property is missing), \<open>deviceType\<close> the field \<open>type\<close>. Location and friendly name
  are the fields \<open>buildDeviceResourceUri\<close> reads.
\<close>

record DeviceMetadata = ResourceInput +
  deviceId :: "jsstring option"
  deviceType :: jsstring
  capabilities :: "jsstring list option"
  protocol :: "jsstring option"

record 'st DeviceManager =
  devices :: "(jsstring \<times> DeviceMetadata) list"
  stateStore :: 'st

definition registerDevice ::
  "DeviceMetadata \<Rightarrow> 'st DeviceManager \<Rightarrow> (error + unit) \<times> 'st DeviceManager" where
  "registerDevice device dm =
     (case deviceId device of
        None \<Rightarrow> (Inl (TypeError ''Device id must be a non-empty string''), dm)
      | Some i \<Rightarrow>
          if i = [] \<or> length (trim i) = 0
          then (Inl (TypeError ''Device id must be a non-empty string''), dm)
          else (Inr (), dm\<lparr>devices := Map_set i device (devices dm)\<rparr>))"

definition listDevices :: "'st DeviceManager \<Rightarrow> DeviceMetadata list" where
  "listDevices dm = Map_values (devices dm)"

definition getDevice :: "jsstring \<Rightarrow> 'st DeviceManager \<Rightarrow> DeviceMetadata option" where
  "getDevice i dm = Map_get (devices dm) i"

subsection \<open>Notions used to state and prove the merge\<close>

definition mergeEntries :: "(jsstring \<times> jsval) list \<Rightarrow> object \<Rightarrow> object" where
  "mergeEntries es obj =
     fold (\<lambda>(k, v) r. if v \<noteq> JUndefined then assignProperty k v r else r) es obj"

definition merged :: "object \<Rightarrow> object \<Rightarrow> jsstring \<Rightarrow> jsval option" where
  "merged S P k =
     (case map_of P k of
        Some v \<Rightarrow> if v = JUndefined then map_of S k else Some v
      | None \<Rightarrow> map_of S k)"

subsection \<open>Example values\<close>

definition exampleAdapter :: "jsstring \<Rightarrow> adapter" where
  "exampleAdapter n =
     Adapter \<lparr>name = StringValue n, initialize = FunctionValue 1, start = FunctionValue 0,
              stop = FunctionValue 0, getDeviceState = FunctionValue 1,
              executeCommand = FunctionValue 2, onDeviceStateChange = FunctionValue 1,
              scanDevices = Missing\<rparr>"

definition exampleDevice :: "jsstring option \<Rightarrow> jsstring \<Rightarrow> DeviceMetadata" where
  "exampleDevice i n =
     \<lparr>location = (utf16 ''kitchen''), friendlyName = n, deviceId = i, deviceType = (utf16 ''light''),
      capabilities = None, protocol = None\<rparr>"

section \<open>Retry policy: withRetry\<close>

text \<open>
  The operation is a state transformer that returns its outcome (\<open>Inl\<close> the error it
  throws); the state stands for everything the operation can observe or change, so that
  consecutive invocations may differ. A run returns the outcome, the final state and
  the trace of what happened in order: invocations of the operation, calls of the
  \<open>onRetry\<close> callback, sleeps. \<open>rnd a\<close> is the value \<open>Math.random()\<close> returns
  during attempt \<open>a\<close>. Delays are exact rationals.
\<close>

definition DEFAULT_RETRIES :: number where "DEFAULT_RETRIES = Finite 3"

definition DEFAULT_BASE_MS :: number where "DEFAULT_BASE_MS = Finite 100"

definition DEFAULT_MAX_MS :: number where "DEFAULT_MAX_MS = Finite 5000"

definition EXPONENTIAL_BASE :: rat where "EXPONENTIAL_BASE = 2"

definition JITTER_MIN_FACTOR :: rat where "JITTER_MIN_FACTOR = 8 / 10"

definition JITTER_RANGE :: rat where "JITTER_RANGE = 4 / 10"

record DelayTiming =
  baseMs :: rat
  maxMs :: rat
  jitter :: bool

record DelayConfig = DelayTiming +
  attempt :: int

text \<open>\<open>b ** e\<close> for an integer exponent.\<close>

definition js_pow :: "rat \<Rightarrow> int \<Rightarrow> rat" where
  "js_pow b e = (if 0 \<le> e then b ^ nat e else 1 / b ^ nat (- e))"

definition calculateDelay :: "DelayConfig \<Rightarrow> rat \<Rightarrow> int" where
  "calculateDelay config random =
     (let exponentialDelay = baseMs config * js_pow EXPONENTIAL_BASE (attempt config - 1);
          delay = min exponentialDelay (maxMs config);
          delay = (if jitter config
                   then delay * (JITTER_MIN_FACTOR + random * JITTER_RANGE)
                   else delay)
      in \<lfloor>delay\<rfloor>)"

definition validateRetryParams :: "number \<Rightarrow> number \<Rightarrow> number \<Rightarrow> error + unit" where
  "validateRetryParams retries base mx =
     (if lt_zero retries \<or> \<not> isInteger retries
      then Inl (RangeError ''retries must be a non-negative integer'')
      else if le_zero base \<or> \<not> isFinite base
      then Inl (RangeError ''baseMs must be a positive finite number'')
      else if le_zero mx \<or> \<not> isFinite mx
      then Inl (RangeError ''maxMs must be a positive finite number'')
      else Inr ())"

text \<open>
  The events of a run. The \<open>onRetry\<close> callback is given as the function telling whether
  the call throws; the exception is caught and ignored by the code, so either way the
  run goes on.
\<close>

datatype 'e retry_event = Invoke nat | OnRetry 'e nat int | Sleep int

datatype ('e, 'a) AttemptResult = Success 'a | Failure 'e

record ('s, 'e, 'a) RetryConfig = DelayTiming +
  op :: "'s \<Rightarrow> ('e + 'a) \<times> 's"
  maxAttempts :: nat
  onRetry :: "('e \<Rightarrow> nat \<Rightarrow> int \<Rightarrow> bool) option"

definition executeSingleAttempt ::
  "('s, 'e, 'a) RetryConfig \<Rightarrow> nat \<Rightarrow> (nat \<Rightarrow> rat) \<Rightarrow> 's \<Rightarrow>
     ('e, 'a) AttemptResult \<times> 's \<times> 'e retry_event list" where
  "executeSingleAttempt config att rnd s =
     (case op config s of
        (Inr v, s') \<Rightarrow> (Success v, s', [Invoke att])
      | (Inl e, s') \<Rightarrow>
          if att = maxAttempts config then (Failure e, s', [Invoke att])
          else (let delayMs = calculateDelay
                      \<lparr>baseMs = baseMs config, maxMs = maxMs config,
                       jitter = jitter config, attempt = int att\<rparr> (rnd att)
                in (Failure e, s',
                    [Invoke att] @
                    (case onRetry config of None \<Rightarrow> [] | Some cb \<Rightarrow> [OnRetry e att delayMs]) @
                    [Sleep delayMs])))"

function retryLoop ::
  "('s, 'e, 'a) RetryConfig \<Rightarrow> (nat \<Rightarrow> rat) \<Rightarrow> nat \<Rightarrow> 'e option \<Rightarrow> 's \<Rightarrow>
     'e retry_event list \<Rightarrow> ('e option + 'a) \<times> 's \<times> 'e retry_event list" where
  "retryLoop config rnd att lastError s tr =
     (if att \<le> maxAttempts config
      then (case executeSingleAttempt config att rnd s of
              (Success v, s', evs) \<Rightarrow> (Inr v, s', tr @ evs)
            | (Failure e, s', evs) \<Rightarrow> retryLoop config rnd (att + 1) (Some e) s' (tr @ evs))
      else (Inl lastError, s, tr))"
  by pat_completeness auto
termination
  by (relation "measure (\<lambda>(config, rnd, att, lastError, s, tr). maxAttempts config + 1 - att)")
    auto

declare retryLoop.simps [simp del]

definition executeWithRetry ::
  "('s, 'e, 'a) RetryConfig \<Rightarrow> (nat \<Rightarrow> rat) \<Rightarrow> 's \<Rightarrow>
     ('e option + 'a) \<times> 's \<times> 'e retry_event list" where
  "executeWithRetry config rnd s = retryLoop config rnd 1 None s []"

record 'e RetryOptions =
  opt_retries :: "number option"
  opt_baseMs :: "number option"
  opt_maxMs :: "number option"
  opt_jitter :: "bool option"
  opt_onRetry :: "('e \<Rightarrow> nat \<Rightarrow> int \<Rightarrow> bool) option"

datatype 'e rejection = ConfigError error | LastError "'e option"

definition withDefault :: "'a option \<Rightarrow> 'a \<Rightarrow> 'a" where
  "withDefault v d = (case v of None \<Rightarrow> d | Some x \<Rightarrow> x)"

text \<open>
  The rational of a number that \<open>validateRetryParams\<close> has accepted.
\<close>

fun finiteValue :: "number \<Rightarrow> rat" where
  "finiteValue (Finite q) = q"
| "finiteValue _ = 0"

definition withRetry ::
  "('s \<Rightarrow> ('e + 'a) \<times> 's) \<Rightarrow> 'e RetryOptions \<Rightarrow> (nat \<Rightarrow> rat) \<Rightarrow> 's \<Rightarrow>
     ('e rejection + 'a) \<times> 's \<times> 'e retry_event list" where
  "withRetry operation opts rnd s =
     (let retries = withDefault (opt_retries opts) DEFAULT_RETRIES;
          base = withDefault (opt_baseMs opts) DEFAULT_BASE_MS;
          mx = withDefault (opt_maxMs opts) DEFAULT_MAX_MS;
          jit = withDefault (opt_jitter opts) True
      in case validateRetryParams retries base mx of
           Inl e \<Rightarrow> (Inl (ConfigError e), s, [])
         | Inr _ \<Rightarrow>
             (let maxAttempts = nat \<lfloor>finiteValue retries + 1\<rfloor>
              in case executeWithRetry
                        \<lparr>baseMs = finiteValue base, maxMs = finiteValue mx, jitter = jit,
                         op = operation, maxAttempts = maxAttempts,
                         onRetry = opt_onRetry opts\<rparr> rnd s of
                   (Inr v, s', tr) \<Rightarrow> (Inr v, s', tr)
                 | (Inl e, s', tr) \<Rightarrow> (Inl (LastError e), s', tr)))"

text \<open>
  Projections of a trace: the attempts that invoked the operation, the delays slept.
\<close>

fun invoked :: "'e retry_event list \<Rightarrow> nat list" where
  "invoked [] = []"
| "invoked (Invoke a # evs) = a # invoked evs"
| "invoked (_ # evs) = invoked evs"

fun slept :: "'e retry_event list \<Rightarrow> int list" where
  "slept [] = []"
| "slept (Sleep d # evs) = d # slept evs"
| "slept (_ # evs) = slept evs"


text \<open>
  An operation that fails on every invocation, with the number of earlier invocations as
  its error; its state counts the invocations.
\<close>

definition alwaysFails :: "nat \<Rightarrow> (nat + unit) \<times> nat" where
  "alwaysFails calls = (Inl calls, Suc calls)"

section \<open>MQTT client: connection and subscriptions\<close>

text \<open>
  The library's client object, as far as the wrapper touches it: the \<open>connected\<close>
  flag the library maintains, the listeners the wrapper has registered on it, and the
  calls the wrapper has made on it, in order. A message handler is identified by a
  number.
\<close>

type_synonym MessageHandler = nat

datatype native_call =
    SubscribeTopics "jsstring list" | SubscribeTopic jsstring | PublishMessage jsstring string
  | EndConnection

datatype promise = NoPromise | Pending | Resolved | Rejected error

record NativeMqttClient =
  connectedFlag :: bool
  onceConnect :: bool
  onceError :: bool
  onReconnect :: bool
  onMessage :: bool
  calls :: "native_call list"

record MqttClientState =
  subscriptions :: "(jsstring \<times> MessageHandler) list"
  current :: "NativeMqttClient option"
  connectPromise :: promise
  delivered :: "(MessageHandler \<times> string) list"

datatype event = EvConnect | EvError string | EvReconnect | EvClose | EvMessage jsstring string

definition createMqttClient :: MqttClientState where
  "createMqttClient =
     \<lparr>subscriptions = [], current = None, connectPromise = NoPromise, delivered = []\<rparr>"

definition mqtt_connect :: NativeMqttClient where
  "mqtt_connect =
     \<lparr>connectedFlag = False, onceConnect = False, onceError = False, onReconnect = False,
      onMessage = False, calls = []\<rparr>"

definition restoreSubscriptions ::
  "(jsstring \<times> MessageHandler) list \<Rightarrow> NativeMqttClient \<Rightarrow> NativeMqttClient" where
  "restoreSubscriptions subs client =
     (if length subs > 0
      then (let topics = Map_keys subs
            in client\<lparr>calls := calls client @ [SubscribeTopics topics]\<rparr>)
      else client)"

definition setupClientListeners :: "NativeMqttClient \<Rightarrow> NativeMqttClient" where
  "setupClientListeners mqttClient =
     mqttClient\<lparr>onceConnect := True, onceError := True, onReconnect := True, onMessage := True\<rparr>"

definition connect :: "MqttClientState \<Rightarrow> (error + unit) \<times> MqttClientState" where
  "connect st =
     (if (case current st of Some c \<Rightarrow> connectedFlag c | None \<Rightarrow> False)
      then (Inl (Error ''MQTT client is already connected''), st)
      else (Inr (), st\<lparr>current := Some (setupClientListeners mqtt_connect),
                        connectPromise := Pending\<rparr>))"

definition settle :: "promise \<Rightarrow> promise \<Rightarrow> promise" where
  "settle outcome p = (if p = Pending then outcome else p)"

fun dispatchMessage ::
  "(jsstring \<times> MessageHandler) list \<Rightarrow> jsstring \<Rightarrow> string \<Rightarrow> (MessageHandler \<times> string) list" where
  "dispatchMessage [] topic message = []"
| "dispatchMessage ((pattern, handler) # rest) topic message =
     (if matchTopic pattern topic then [(handler, message)] else []) @
     dispatchMessage rest topic message"

fun emit :: "event \<Rightarrow> MqttClientState \<Rightarrow> MqttClientState" where
  "emit ev st =
     (case current st of
        None \<Rightarrow> st
      | Some c \<Rightarrow>
          (case ev of
             EvConnect \<Rightarrow>
               (let c1 = c\<lparr>connectedFlag := True\<rparr>
                in if onceConnect c1
                   then st\<lparr>current := Some ((restoreSubscriptions (subscriptions st) c1)
                                               \<lparr>onceConnect := False\<rparr>),
                           connectPromise := settle Resolved (connectPromise st)\<rparr>
                   else st\<lparr>current := Some c1\<rparr>)
           | EvError m \<Rightarrow>
               if onceError c
               then st\<lparr>current := Some (c\<lparr>onceError := False\<rparr>),
                       connectPromise :=
                         settle (Rejected (Error ''Failed to connect to MQTT broker''))
                           (connectPromise st)\<rparr>
               else st
           | EvReconnect \<Rightarrow>
               if onReconnect c
               then st\<lparr>current := Some (restoreSubscriptions (subscriptions st) c)\<rparr>
               else st
           | EvClose \<Rightarrow> st\<lparr>current := Some (c\<lparr>connectedFlag := False\<rparr>)\<rparr>
           | EvMessage topic message \<Rightarrow>
               if onMessage c
               then st\<lparr>delivered := delivered st @
                         dispatchMessage (subscriptions st) topic message\<rparr>
               else st))"

text \<open>\<open>callbackError\<close> is what the library passes to the callback: \<open>None\<close> on success.\<close>

definition subscribe ::
  "jsstring \<Rightarrow> MessageHandler \<Rightarrow> string option \<Rightarrow> MqttClientState \<Rightarrow>
     (error + unit) \<times> MqttClientState" where
  "subscribe topic handler callbackError st =
     (case current st of
        None \<Rightarrow> (Inl (Error ''MQTT client is not connected''), st)
      | Some c \<Rightarrow>
          if \<not> connectedFlag c then (Inl (Error ''MQTT client is not connected''), st)
          else if length (trim topic) = 0
          then (Inl (TypeError ''topic must be a non-empty string''), st)
          else (let c' = c\<lparr>calls := calls c @ [SubscribeTopic topic]\<rparr>
                in case callbackError of
                     Some m \<Rightarrow> (Inl (Error ''Failed to subscribe to topic''),
                                st\<lparr>current := Some c'\<rparr>)
                   | None \<Rightarrow> (Inr (), st\<lparr>current := Some c',
                                    subscriptions := Map_set topic handler (subscriptions st)\<rparr>)))"

definition publish ::
  "jsstring \<Rightarrow> string \<Rightarrow> string option \<Rightarrow> MqttClientState \<Rightarrow>
     (error + unit) \<times> MqttClientState" where
  "publish topic payloadStr callbackError st =
     (case current st of
        None \<Rightarrow> (Inl (Error ''MQTT client is not connected''), st)
      | Some c \<Rightarrow>
          if \<not> connectedFlag c then (Inl (Error ''MQTT client is not connected''), st)
          else if length (trim topic) = 0
          then (Inl (TypeError ''topic must be a non-empty string''), st)
          else (let c' = c\<lparr>calls := calls c @ [PublishMessage topic payloadStr]\<rparr>
                in case callbackError of
                     Some m \<Rightarrow> (Inl (Error ''Failed to publish to topic''),
                                st\<lparr>current := Some c'\<rparr>)
                   | None \<Rightarrow> (Inr (), st\<lparr>current := Some c'\<rparr>)))"

definition disconnect ::
  "string option \<Rightarrow> MqttClientState \<Rightarrow> (error + unit) \<times> MqttClientState" where
  "disconnect callbackError st =
     (case current st of
        None \<Rightarrow> (Inr (), st)
      | Some c \<Rightarrow>
          (let c' = c\<lparr>calls := calls c @ [EndConnection]\<rparr>
           in case callbackError of
                Some m \<Rightarrow> (Inl (Error ''Failed to disconnect from MQTT broker''),
                           st\<lparr>current := Some c'\<rparr>)
              | None \<Rightarrow> (Inr (), st\<lparr>current := None, subscriptions := []\<rparr>)))"

text \<open>What can happen to a client: a call of one of its methods or an event of the
  transport.\<close>

datatype action =
    Connect | Emit event | Subscribe jsstring MessageHandler "string option"
  | Publish jsstring string "string option" | Disconnect "string option"

fun perform :: "action \<Rightarrow> MqttClientState \<Rightarrow> MqttClientState" where
  "perform Connect st = snd (connect st)"
| "perform (Emit ev) st = emit ev st"
| "perform (Subscribe topic handler err) st = snd (subscribe topic handler err st)"
| "perform (Publish topic payloadStr err) st = snd (publish topic payloadStr err st)"
| "perform (Disconnect err) st = snd (disconnect err st)"

definition run :: "action list \<Rightarrow> MqttClientState \<Rightarrow> MqttClientState" where
  "run acts st = fold perform acts st"

text \<open>
  A client that has a transport has its \<open>reconnect\<close> listener registered on it.
\<close>

definition listening :: "MqttClientState \<Rightarrow> bool" where
  "listening st = (case current st of None \<Rightarrow> True | Some c \<Rightarrow> onReconnect c)"

definition exampleSession :: "action list" where
  "exampleSession =
     [Connect, Emit EvConnect, Subscribe (utf16 ''devices/+/state'') 1 None,
      Subscribe (utf16 ''zigbee2mqtt/#'') 2 None, Emit EvClose, Emit EvReconnect, Emit EvConnect,
      Emit EvClose]"

section \<open>Command queue: capacity\<close>

lemma enqueue_each_room:
  "int (length (queue q) + length cs) \<le> maxSize q \<Longrightarrow>
   enqueue_each cs q =
     (map (\<lambda>i. Inr (length (queue q) + Suc i)) [0..<length cs], q\<lparr>queue := queue q @ cs\<rparr>)"
proof (induction cs arbitrary: q)
  case Nil
  then show ?case by simp
next
  case (Cons c cs)
  let ?q' = "q\<lparr>queue := queue q @ [c]\<rparr>"
  have step: "enqueue c q = (Inr (Suc (length (queue q))), ?q')"
    using Cons.prems by (simp add: enqueue_def Let_def)
  have room: "int (length (queue ?q') + length cs) \<le> maxSize ?q'"
    using Cons.prems by simp
  have shift: "map (\<lambda>i. Inr (length (queue q) + Suc i) :: error + nat) [0..<Suc (length cs)] =
        Inr (Suc (length (queue q))) # map (\<lambda>i. Inr (length (queue ?q') + Suc i)) [0..<length cs]"
    by (simp add: upt_conv_Cons map_Suc_upt [symmetric] del: upt_Suc)
  show ?case
    using Cons.IH [OF room] step shift by simp
qed

text \<open>
  C2. A queue created with a positive integer capacity \<open>n\<close> starts empty; \<open>n\<close>
  consecutive enqueues succeed (returning the lengths 1..n), the next one throws the
  queue-full RangeError and leaves the queue as it was (nothing evicted); after one
  dequeue, which returns the oldest command, one enqueue succeeds and the one after it
  throws again. A capacity that is not an integer or not positive makes the
  construction throw a RangeError.
\<close>

theorem queue_capacity:
  fixes cs :: "'a list" and n :: int
  assumes pos: "0 < n" and len: "int (length cs) = n"
  shows "(\<exists>q0 qn qd qe.
           createCommandQueue (Finite (of_int n)) = Inr q0 \<and> queue q0 = [] \<and>
           enqueue_each cs q0 = (map (\<lambda>i. Inr (Suc i)) [0..<length cs], qn) \<and>
           queue qn = cs \<and>
           enqueue c qn = (Inl (RangeError ''Command queue is full, cannot enqueue''), qn) \<and>
           dequeue qn = (Some (hd cs), qd) \<and> queue qd = tl cs \<and>
           enqueue c qd = (Inr (length cs), qe) \<and> queue qe = tl cs @ [c] \<and>
           enqueue c' qe = (Inl (RangeError ''Command queue is full, cannot enqueue''), qe)) \<and>
         (\<forall>m. \<not> isInteger m \<or> le_zero m \<longrightarrow>
           (createCommandQueue m :: error + 'a CommandQueue) =
             Inl (RangeError ''maxSize must be a positive integer''))"
proof (intro conjI allI impI)
  let ?q0 = "\<lparr>maxSize = n, queue = []\<rparr> :: 'a CommandQueue"
  let ?qn = "?q0\<lparr>queue := cs\<rparr>"
  let ?qd = "?qn\<lparr>queue := tl cs\<rparr>"
  let ?qe = "?qd\<lparr>queue := tl cs @ [c]\<rparr>"
  have ne: "cs \<noteq> []" using pos len by auto
  have c0: "createCommandQueue (Finite (of_int n)) = Inr ?q0"
    using pos by (simp add: createCommandQueue_def)
  have "int (length (queue ?q0) + length cs) \<le> maxSize ?q0"
    using len by simp
  from enqueue_each_room [OF this]
  have all: "enqueue_each cs ?q0 = (map (\<lambda>i. Inr (Suc i)) [0..<length cs], ?qn)"
    by simp
  have full: "enqueue c ?qn = (Inl (RangeError ''Command queue is full, cannot enqueue''), ?qn)"
    using len by (simp add: enqueue_def)
  have deq: "dequeue ?qn = (Some (hd cs), ?qd)"
    using ne by (cases cs) (simp_all add: dequeue_def)
  have again: "enqueue c ?qd = (Inr (length cs), ?qe)"
    using len ne by (cases cs) (simp_all add: enqueue_def Let_def)
  have full2: "enqueue c' ?qe = (Inl (RangeError ''Command queue is full, cannot enqueue''), ?qe)"
    using ne len by (cases cs) (simp_all add: enqueue_def)
  show "\<exists>q0 qn qd qe.
           createCommandQueue (Finite (of_int n)) = Inr q0 \<and> queue q0 = [] \<and>
           enqueue_each cs q0 = (map (\<lambda>i. Inr (Suc i)) [0..<length cs], qn) \<and>
           queue qn = cs \<and>
           enqueue c qn = (Inl (RangeError ''Command queue is full, cannot enqueue''), qn) \<and>
           dequeue qn = (Some (hd cs), qd) \<and> queue qd = tl cs \<and>
           enqueue c qd = (Inr (length cs), qe) \<and> queue qe = tl cs @ [c] \<and>
           enqueue c' qe = (Inl (RangeError ''Command queue is full, cannot enqueue''), qe)"
    apply (rule exI [of _ ?q0], rule exI [of _ ?qn], rule exI [of _ ?qd], rule exI [of _ ?qe])
    using c0 all full deq again full2 by simp
next
  fix m :: number
  assume "\<not> isInteger m \<or> le_zero m"
  then show "(createCommandQueue m :: error + 'a CommandQueue) =
             Inl (RangeError ''maxSize must be a positive integer'')"
    by (simp add: createCommandQueue_def)
qed

theorem queue_capacity_witness:
  "(0::int) < 2 \<and> int (length [''on'', ''off'']) = 2 \<and>
   enqueue_each [''on'', ''off''] \<lparr>maxSize = 2, queue = []\<rparr> =
     ([Inr 1, Inr 2], \<lparr>maxSize = 2, queue = [''on'', ''off'']\<rparr>) \<and>
   enqueue ''dim'' \<lparr>maxSize = 2, queue = [''on'', ''off'']\<rparr> =
     (Inl (RangeError ''Command queue is full, cannot enqueue''),
      \<lparr>maxSize = 2, queue = [''on'', ''off'']\<rparr>) \<and>
   dequeue \<lparr>maxSize = 2, queue = [''on'', ''off'']\<rparr> =
     (Some ''on'', \<lparr>maxSize = 2, queue = [''off'']\<rparr>) \<and>
   enqueue ''dim'' \<lparr>maxSize = 2, queue = [''off'']\<rparr> =
     (Inr 2, \<lparr>maxSize = 2, queue = [''off'', ''dim'']\<rparr>) \<and>
   (createCommandQueue (Finite (11 / 2)) :: error + string CommandQueue) =
     Inl (RangeError ''maxSize must be a positive integer'') \<and>
   (createCommandQueue (Finite 0) :: error + string CommandQueue) =
     Inl (RangeError ''maxSize must be a positive integer'') \<and>
   (createCommandQueue NaN :: error + string CommandQueue) =
     Inl (RangeError ''maxSize must be a positive integer'')"
proof -
  have frac: "\<not> isInteger (Finite (11 / 2))"
    by code_simp
  show ?thesis
    using queue_capacity [of 2 "[''on'', ''off'']" "''dim''" "''dim''"] frac
    by (simp add: createCommandQueue_def enqueue_def dequeue_def Let_def del: isInteger.simps)
qed

section \<open>Code units\<close>

lemma unat_cu: "unat (cu c) = of_char c"
proof -
  have "(of_char c :: nat) < 256"
    by (metis of_char_mod_256 mod_less_divisor zero_less_numeral)
  then have "(of_char c :: nat) < 65536" by linarith
  then have "(of_char c :: nat) < 2 ^ LENGTH(16)" by simp
  then have "(of_char c :: nat) mod 2 ^ LENGTH(16) = of_char c" by (rule mod_less)
  moreover have "cu c = of_nat (of_char c)" by (simp add: cu_def of_nat_of_char)
  ultimately show ?thesis by (simp only: unat_of_nat)
qed

lemma cu_eq_iff [simp]: "cu c = cu d \<longleftrightarrow> c = d"
proof
  assume "cu c = cu d"
  then have "unat (cu c) = unat (cu d)" by simp
  then show "c = d" by (simp add: unat_cu)
qed simp

lemma length_utf16 [simp]: "length (utf16 s) = length s"
  by (simp add: utf16_def)

lemma utf16_slash: "utf16 ''/'' = [cu CHR ''/'']"
  by (simp add: utf16_def)

lemma utf16_slash_state: "utf16 ''/state'' = cu CHR ''/'' # utf16 ''state''"
  by (simp add: utf16_def)

lemma state_no_slash: "cu CHR ''/'' \<notin> set (utf16 ''state'')"
  by (simp add: utf16_def)

section \<open>Wildcard matching\<close>

lemma js_split_nonempty: "js_split d s \<noteq> []"
  by (induction s) (auto simp: Let_def)

lemma levelsMatch_iff:
  "levelsMatch ps ts i n \<longleftrightarrow>
     (\<forall>j. i \<le> j \<and> j < n \<longrightarrow> at_index ps j = Some (utf16 ''+'') \<or> at_index ps j = at_index ts j)"
proof (induction ps ts i n rule: levelsMatch.induct)
  case (1 ps ts i n)
  show ?case
  proof (cases "i < n")
    case False
    then show ?thesis by (auto simp: levelsMatch.simps [of ps ts i n])
  next
    case True
    show ?thesis
    proof (cases "at_index ps i \<noteq> Some (utf16 ''+'') \<and> at_index ps i \<noteq> at_index ts i")
      case bad: True
      with True show ?thesis
        by (auto simp: levelsMatch.simps [of ps ts i n])
    next
      case ok: False
      have "levelsMatch ps ts i n = levelsMatch ps ts (i + 1) n"
        using True ok by (subst levelsMatch.simps) auto
      also have "\<dots> \<longleftrightarrow> (\<forall>j. i + 1 \<le> j \<and> j < n \<longrightarrow>
                    at_index ps j = Some (utf16 ''+'') \<or> at_index ps j = at_index ts j)"
        using "1.IH" True ok by blast
      also have "\<dots> \<longleftrightarrow> (\<forall>j. i \<le> j \<and> j < n \<longrightarrow>
                    at_index ps j = Some (utf16 ''+'') \<or> at_index ps j = at_index ts j)"
      proof (intro iffI allI impI)
        fix j
        assume h: "\<forall>j. i + 1 \<le> j \<and> j < n \<longrightarrow>
                    at_index ps j = Some (utf16 ''+'') \<or> at_index ps j = at_index ts j"
          and j: "i \<le> j \<and> j < n"
        show "at_index ps j = Some (utf16 ''+'') \<or> at_index ps j = at_index ts j"
        proof (cases "j = i")
          case True
          with ok show ?thesis by blast
        next
          case False
          with j have "i + 1 \<le> j \<and> j < n" by simp
          with h show ?thesis by blast
        qed
      next
        fix j
        assume h: "\<forall>j. i \<le> j \<and> j < n \<longrightarrow>
                    at_index ps j = Some (utf16 ''+'') \<or> at_index ps j = at_index ts j"
          and j: "i + 1 \<le> j \<and> j < n"
        then show "at_index ps j = Some (utf16 ''+'') \<or> at_index ps j = at_index ts j"
          by simp
      qed
      finally show ?thesis .
    qed
  qed
qed

lemma levelsMatch_nth:
  assumes "n \<le> length ps" and "n \<le> length ts"
  shows "levelsMatch ps ts 0 n \<longleftrightarrow> (\<forall>i < n. ps ! i = (utf16 ''+'') \<or> ps ! i = ts ! i)"
  using assms by (auto simp: levelsMatch_iff at_index_def)

text \<open>
  C5. \<open>matchTopic\<close> returns true exactly when the specification's rule holds: the two
  strings are equal; or the last segment of the pattern is \<open>#\<close>, the topic has at
  least as many segments as precede it and each of those is \<open>+\<close> or equals the topic's
  segment at that position; or the pattern does not end in \<open>#\<close>, both have the same
  number of segments and each pattern segment is \<open>+\<close> or equals the topic's.
\<close>

theorem matchTopic_refines:
  "matchTopic pattern topic = matchTopic_spec pattern topic"
proof (cases "pattern = topic")
  case True
  then show ?thesis by (simp add: matchTopic_def matchTopic_spec_def)
next
  case neq: False
  let ?ps = "js_split (cu CHR ''/'') pattern" and ?ts = "js_split (cu CHR ''/'') topic"
  have ne: "?ps \<noteq> []" by (rule js_split_nonempty)
  have lastp: "at_index ?ps (length ?ps - 1) = Some (utf16 ''#'') \<longleftrightarrow> last ?ps = (utf16 ''#'')"
    using ne by (simp add: at_index_def last_conv_nth)
  show ?thesis
  proof (cases "last ?ps = (utf16 ''#'')")
    case hash: True
    show ?thesis
    proof (cases "length ?ps - 1 \<le> length ?ts")
      case True
      then show ?thesis
        using neq hash lastp levelsMatch_nth [of "length ?ps - 1" ?ps ?ts]
        by (simp add: matchTopic_def matchTopic_spec_def Let_def)
    next
      case False
      then show ?thesis
        using neq hash lastp
        by (simp add: matchTopic_def matchTopic_spec_def Let_def)
    qed
  next
    case nohash: False
    show ?thesis
    proof (cases "length ?ps = length ?ts")
      case True
      then show ?thesis
        using neq nohash lastp levelsMatch_nth [of "length ?ps" ?ps ?ts]
        by (simp add: matchTopic_def matchTopic_spec_def Let_def)
    next
      case False
      then show ?thesis
        using neq nohash lastp
        by (simp add: matchTopic_def matchTopic_spec_def Let_def)
    qed
  qed
qed

section \<open>Topic to device id\<close>

lemma js_join_split: "js_join d (js_split d s) = s"
proof (induction s)
  case Nil
  show ?case by simp
next
  case (Cons c cs)
  obtain w ws where r: "js_split d cs = w # ws"
    using js_split_nonempty [of d cs] by (cases "js_split d cs") auto
  show ?case
    using Cons r by (cases ws) (auto simp: Let_def)
qed

lemma js_join_append:
  "xs \<noteq> [] \<Longrightarrow> ys \<noteq> [] \<Longrightarrow> js_join d (xs @ ys) = js_join d xs @ d # js_join d ys"
proof (induction xs)
  case Nil
  then show ?case by simp
next
  case (Cons x xs)
  show ?case
  proof (cases xs)
    case Nil
    with Cons.prems show ?thesis by (cases ys) auto
  next
    case (Cons x' xs')
    with Cons.IH Cons.prems show ?thesis by simp
  qed
qed

lemma js_split_append:
  "js_split d (xs @ d # ys) = js_split d xs @ js_split d ys"
proof (induction xs)
  case Nil
  show ?case by (simp add: Let_def)
next
  case (Cons x xs)
  obtain w ws where r: "js_split d xs = w # ws"
    using js_split_nonempty [of d xs] by (cases "js_split d xs") auto
  show ?case
    using Cons r by (simp add: Let_def)
qed

lemma js_split_nodelim: "d \<notin> set xs \<Longrightarrow> js_split d xs = [xs]"
  by (induction xs) (auto simp: Let_def)

lemma js_split_segments: "w \<in> set (js_split d s) \<Longrightarrow> d \<notin> set w"
proof (induction s arbitrary: w)
  case Nil
  then show ?case by simp
next
  case (Cons c cs)
  obtain v vs where r: "js_split d cs = v # vs"
    using js_split_nonempty [of d cs] by (cases "js_split d cs") auto
  show ?case
    using Cons r by (auto simp: Let_def split: if_splits)
qed

lemma last_two:
  assumes "2 \<le> length xs"
  shows "xs = take (length xs - 2) xs @ [xs ! (length xs - 2), xs ! (length xs - 1)]"
proof -
  from assms obtain ys b where 1: "xs = ys @ [b]"
    by (cases xs rule: rev_cases) auto
  with assms obtain zs a where 2: "ys = zs @ [a]"
    by (cases ys rule: rev_cases) auto
  show ?thesis
    by (simp add: 1 2 nth_append)
qed

text \<open>The shape of a remainder from which a device id is extracted.\<close>

lemma extractDeviceIdFromTopic_Some:
  "extractDeviceIdFromTopic r = Some dv \<longleftrightarrow>
     dv \<noteq> [] \<and> (cu CHR ''/'') \<notin> set dv \<and>
     (\<exists>pre. (pre = [] \<or> last pre = (cu CHR ''/'')) \<and> r = pre @ dv @ (utf16 ''/state''))"
proof
  let ?parts = "js_split (cu CHR ''/'') r"
  assume ex: "extractDeviceIdFromTopic r = Some dv"
  then have len: "2 \<le> length ?parts"
    and lst: "?parts ! (length ?parts - 1) = (utf16 ''state'')"
    and dv: "?parts ! (length ?parts - 2) = dv" and ne: "dv \<noteq> []"
    by (auto simp: extractDeviceIdFromTopic_def Let_def MIN_TOPIC_PARTS_def DEVICE_ID_OFFSET_def
        at_index_def split: if_splits)
  let ?front = "take (length ?parts - 2) ?parts"
  have decomp: "?parts = ?front @ [dv, (utf16 ''state'')]"
    using last_two [OF len] lst dv by simp
  have nosl: "(cu CHR ''/'') \<notin> set dv"
  proof -
    have "dv \<in> set ?parts" by (subst decomp) simp
    then show ?thesis by (rule js_split_segments)
  qed
  have r: "r = js_join (cu CHR ''/'') (?front @ [dv, (utf16 ''state'')])"
    using js_join_split [of "(cu CHR ''/'')" r] decomp by simp
  have "\<exists>pre. (pre = [] \<or> last pre = (cu CHR ''/'')) \<and> r = pre @ dv @ (utf16 ''/state'')"
  proof (cases "?front = []")
    case True
    with r have "r = [] @ dv @ (utf16 ''/state'')" by (simp add: utf16_slash_state)
    then show ?thesis by blast
  next
    case False
    then have "r = (js_join (cu CHR ''/'') ?front @ (utf16 ''/'')) @ dv @ (utf16 ''/state'')"
      using r js_join_append [of ?front "[dv, (utf16 ''state'')]" "(cu CHR ''/'')"]
      by (simp add: utf16_slash_state utf16_slash)
    moreover have "last (js_join (cu CHR ''/'') ?front @ (utf16 ''/'')) = (cu CHR ''/'')"
      by (simp add: utf16_slash)
    ultimately show ?thesis by blast
  qed
  with ne nosl show "dv \<noteq> [] \<and> (cu CHR ''/'') \<notin> set dv \<and>
     (\<exists>pre. (pre = [] \<or> last pre = (cu CHR ''/'')) \<and> r = pre @ dv @ (utf16 ''/state''))"
    by blast
next
  assume "dv \<noteq> [] \<and> (cu CHR ''/'') \<notin> set dv \<and>
     (\<exists>pre. (pre = [] \<or> last pre = (cu CHR ''/'')) \<and> r = pre @ dv @ (utf16 ''/state''))"
  then obtain pre where ne: "dv \<noteq> []" and nosl: "(cu CHR ''/'') \<notin> set dv"
    and pre: "pre = [] \<or> last pre = (cu CHR ''/'')" and r: "r = pre @ dv @ (utf16 ''/state'')"
    by blast
  have st: "js_split (cu CHR ''/'') (utf16 ''state'') = [(utf16 ''state'')]"
    by (rule js_split_nodelim) (rule state_no_slash)
  have tail: "js_split (cu CHR ''/'') (dv @ (utf16 ''/state'')) = [dv, (utf16 ''state'')]"
    using js_split_append [of "(cu CHR ''/'')" dv "(utf16 ''state'')"] js_split_nodelim [OF nosl] st
    by (simp add: utf16_slash_state)
  have "\<exists>front. js_split (cu CHR ''/'') r = front @ [dv, (utf16 ''state'')]"
  proof (cases "pre = []")
    case True
    with r tail have "js_split (cu CHR ''/'') r = [] @ [dv, (utf16 ''state'')]" by simp
    then show ?thesis by blast
  next
    case False
    with pre have "pre = butlast pre @ [cu CHR ''/'']"
      by (metis append_butlast_last_id)
    then obtain p where p: "pre = p @ (utf16 ''/'')"
      unfolding utf16_slash by blast
    have "js_split (cu CHR ''/'') r = js_split (cu CHR ''/'') p @ [dv, (utf16 ''state'')]"
      using js_split_append [of "(cu CHR ''/'')" p "dv @ (utf16 ''/state'')"] tail r p
      by (simp add: utf16_slash)
    then show ?thesis by blast
  qed
  then obtain front where f: "js_split (cu CHR ''/'') r = front @ [dv, (utf16 ''state'')]" by blast
  have idx: "(front @ [dv, (utf16 ''state'')]) ! length front = dv"
    by (simp add: nth_append)
  show "extractDeviceIdFromTopic r = Some dv"
    using ne idx
    by (simp add: extractDeviceIdFromTopic_def f Let_def MIN_TOPIC_PARTS_def DEVICE_ID_OFFSET_def
        at_index_def nth_append)
qed

lemma mapTopicToDeviceId_blank:
  assumes "trim base = [] \<or> trim topic = []"
  shows "\<exists>msg. mapTopicToDeviceId base topic = Inl (TypeError msg)"
  using assms by (auto simp: mapTopicToDeviceId_def validateTopicInputs_def)

lemma extractDeviceIdFromTopic_segments:
  "extractDeviceIdFromTopic r =
     (let segments = js_split (cu CHR ''/'') r
      in if 2 \<le> length segments \<and> last segments = (utf16 ''state'') \<and>
            segments ! (length segments - 2) \<noteq> []
         then Some (segments ! (length segments - 2)) else None)"
  using js_split_nonempty [of "(cu CHR ''/'')" r]
  by (auto simp: extractDeviceIdFromTopic_def Let_def MIN_TOPIC_PARTS_def
      DEVICE_ID_OFFSET_def at_index_def last_conv_nth)

lemma mapTopicToDeviceId_nonblank:
  assumes "trim base \<noteq> []" and "trim topic \<noteq> []"
  defines "b \<equiv> stripTrailingSlashes (trim base)" and "t \<equiv> trim topic"
  shows "mapTopicToDeviceId base topic = Inr (deviceSegment b t)"
    and "deviceSegment b t = Some dv \<longleftrightarrow> topicShape b t dv"
proof -
  have valid: "validateTopicInputs base topic = Inr ()"
    using assms(1,2) by (simp add: validateTopicInputs_def)
  have len: "length (b @ (utf16 ''/'')) = length b + 1" by (simp add: utf16_slash)
  show "mapTopicToDeviceId base topic = Inr (deviceSegment b t)"
  proof (cases "startsWith t (b @ (utf16 ''/''))")
    case False
    then have "mapTopicToDeviceId base topic = Inr None"
      using valid by (simp add: mapTopicToDeviceId_def Let_def b_def t_def)
    moreover have "deviceSegment b t = None"
      using False by (simp add: deviceSegment_def startsWith_def Let_def)
    ultimately show ?thesis by simp
  next
    case True
    then have "mapTopicToDeviceId base topic = Inr (extractDeviceIdFromTopic (drop (length b + 1) t))"
      using valid by (simp add: mapTopicToDeviceId_def Let_def slice_def b_def t_def)
    moreover have "deviceSegment b t = extractDeviceIdFromTopic (drop (length b + 1) t)"
      using True
      by (simp add: deviceSegment_def extractDeviceIdFromTopic_segments startsWith_def Let_def)
    ultimately show ?thesis by simp
  qed
  show "deviceSegment b t = Some dv \<longleftrightarrow> topicShape b t dv"
  proof (cases "startsWith t (b @ (utf16 ''/''))")
    case False
    then have none: "deviceSegment b t = None"
      by (simp add: deviceSegment_def startsWith_def Let_def)
    have "\<not> topicShape b t dv"
    proof
      assume "topicShape b t dv"
      then obtain pre where "t = (b @ (utf16 ''/'')) @ pre @ dv @ (utf16 ''/state'')"
        by (auto simp: topicShape_def)
      then have "take (length (b @ (utf16 ''/''))) t = b @ (utf16 ''/'')"
        by (metis append_eq_conv_conj)
      with False show False by (simp add: startsWith_def)
    qed
    with none show ?thesis by simp
  next
    case True
    let ?r = "drop (length b + 1) t"
    have t: "t = (b @ (utf16 ''/'')) @ ?r"
    proof -
      have "take (length b + 1) t = b @ (utf16 ''/'')" using True by (simp add: startsWith_def)
      then have "(b @ (utf16 ''/'')) @ ?r = take (length b + 1) t @ drop (length b + 1) t" by simp
      then show ?thesis by (simp only: append_take_drop_id)
    qed
    have eq: "deviceSegment b t = extractDeviceIdFromTopic ?r"
      using True
      by (simp add: deviceSegment_def extractDeviceIdFromTopic_segments startsWith_def Let_def)
    have "(\<exists>pre. (pre = [] \<or> last pre = (cu CHR ''/'')) \<and> ?r = pre @ dv @ (utf16 ''/state'')) \<longleftrightarrow>
          (\<exists>pre. (pre = [] \<or> last pre = (cu CHR ''/'')) \<and> t = b @ (utf16 ''/'') @ pre @ dv @ (utf16 ''/state''))"
    proof -
      have "\<And>pre. ?r = pre @ dv @ (utf16 ''/state'') \<longleftrightarrow> t = b @ (utf16 ''/'') @ pre @ dv @ (utf16 ''/state'')"
      proof -
        fix pre
        have "t = b @ (utf16 ''/'') @ pre @ dv @ (utf16 ''/state'') \<longleftrightarrow>
              (b @ (utf16 ''/'')) @ ?r = (b @ (utf16 ''/'')) @ (pre @ dv @ (utf16 ''/state''))"
          using t by simp
        also have "\<dots> \<longleftrightarrow> ?r = pre @ dv @ (utf16 ''/state'')"
          by (simp only: same_append_eq)
        finally show "?r = pre @ dv @ (utf16 ''/state'') \<longleftrightarrow> t = b @ (utf16 ''/'') @ pre @ dv @ (utf16 ''/state'')"
          by simp
      qed
      then show ?thesis by simp
    qed
    then show ?thesis
      unfolding eq extractDeviceIdFromTopic_Some topicShape_def by simp
  qed
qed

text \<open>
  C6, as amended. Base and topic are trimmed first. If either is blank the call throws a
  TypeError. Otherwise, with \<open>b\<close> the trimmed base without its trailing slashes and
  \<open>t\<close> the trimmed topic, the result is never an error; it is the second-to-last
  segment of the rest of \<open>t\<close> after \<open>b/\<close> exactly when \<open>t\<close> starts with \<open>b/\<close>,
  the rest has at least two segments, the last is \<open>state\<close> and that segment is not
  empty, that is, exactly when \<open>t\<close> has the shape \<open>b/.../id/state\<close>; it is null in
  every other case.
\<close>

theorem mapTopicToDeviceId_trimmed:
  "(if trim base = [] \<or> trim topic = []
    then \<exists>msg. mapTopicToDeviceId base topic = Inl (TypeError msg)
    else mapTopicToDeviceId base topic =
           Inr (deviceSegment (stripTrailingSlashes (trim base)) (trim topic)) \<and>
         (\<forall>dv. deviceSegment (stripTrailingSlashes (trim base)) (trim topic) = Some dv \<longleftrightarrow>
               topicShape (stripTrailingSlashes (trim base)) (trim topic) dv)) \<and>
   mapTopicToDeviceId (utf16 ''zigbee2mqtt'') (utf16 ''zigbee2mqtt/lamp/state'') = Inr (Some (utf16 ''lamp'')) \<and>
   mapTopicToDeviceId (utf16 ''zigbee2mqtt'') (utf16 ''zigbee2mqtt/lamp/config'') = Inr None"
proof (intro conjI)
  show "mapTopicToDeviceId (utf16 ''zigbee2mqtt'') (utf16 ''zigbee2mqtt/lamp/state'') = Inr (Some (utf16 ''lamp''))"
    by code_simp
  show "mapTopicToDeviceId (utf16 ''zigbee2mqtt'') (utf16 ''zigbee2mqtt/lamp/config'') = Inr None"
    by code_simp
  show "if trim base = [] \<or> trim topic = []
    then \<exists>msg. mapTopicToDeviceId base topic = Inl (TypeError msg)
    else mapTopicToDeviceId base topic =
           Inr (deviceSegment (stripTrailingSlashes (trim base)) (trim topic)) \<and>
         (\<forall>dv. deviceSegment (stripTrailingSlashes (trim base)) (trim topic) = Some dv \<longleftrightarrow>
               topicShape (stripTrailingSlashes (trim base)) (trim topic) dv)"
  proof (cases "trim base = [] \<or> trim topic = []")
    case True
    then show ?thesis using mapTopicToDeviceId_blank by simp
  next
    case False
    then show ?thesis
      using mapTopicToDeviceId_nonblank [of base topic] by simp
  qed
qed

theorem mapTopicToDeviceId_trimmed_witness:
  "trim (utf16 ''  zigbee2mqtt///  '') \<noteq> [] \<and> trim (utf16 '' zigbee2mqtt/floor1/lamp/state '') \<noteq> [] \<and>
   mapTopicToDeviceId (utf16 ''  zigbee2mqtt///  '') (utf16 '' zigbee2mqtt/floor1/lamp/state '') =
     Inr (Some (utf16 ''lamp'')) \<and>
   trim (utf16 '' zigbee2mqtt/floor1/lamp/state '') =
     stripTrailingSlashes (trim (utf16 ''  zigbee2mqtt///  '')) @ (utf16 ''/'') @ (utf16 ''floor1/'') @ (utf16 ''lamp'') @ (utf16 ''/state'')"
proof -
  have 1: "trim (utf16 ''  zigbee2mqtt///  '') \<noteq> []" and 2: "trim (utf16 '' zigbee2mqtt/floor1/lamp/state '') \<noteq> []"
    by code_simp+
  have 3: "mapTopicToDeviceId (utf16 ''  zigbee2mqtt///  '') (utf16 '' zigbee2mqtt/floor1/lamp/state '') =
     Inr (Some (utf16 ''lamp''))"
    by code_simp
  have 4: "trim (utf16 '' zigbee2mqtt/floor1/lamp/state '') =
     stripTrailingSlashes (trim (utf16 ''  zigbee2mqtt///  '')) @ (utf16 ''/'') @ (utf16 ''floor1/'') @ (utf16 ''lamp'') @ (utf16 ''/state'')"
    by code_simp
  from mapTopicToDeviceId_trimmed [of "(utf16 ''  zigbee2mqtt///  '')" "(utf16 '' zigbee2mqtt/floor1/lamp/state '')"] 1 2
  have "\<exists>r. mapTopicToDeviceId (utf16 ''  zigbee2mqtt///  '') (utf16 '' zigbee2mqtt/floor1/lamp/state '') = Inr r"
    by (simp only: if_False simp_thms) blast
  with 1 2 3 4 show ?thesis by blast
qed

text \<open>
  C6 as stated fails: a base of three spaces is not empty, yet the call throws; and a
  topic that does not start with the slash-stripped base \<open>zigbee2mqtt \<close> (with its
  trailing space) followed by a slash is mapped all the same, because the base is
  trimmed.
\<close>

theorem mapTopicToDeviceId_counterexample:
  "(utf16 ''   '') \<noteq> [] \<and> (utf16 ''zigbee2mqtt/lamp/state'') \<noteq> [] \<and>
   mapTopicToDeviceId (utf16 ''   '') (utf16 ''zigbee2mqtt/lamp/state'') =
     Inl (TypeError ''base must be a non-empty string'') \<and>
   \<not> startsWith (utf16 ''zigbee2mqtt/lamp/state'') (stripTrailingSlashes (utf16 ''zigbee2mqtt '') @ (utf16 ''/'')) \<and>
   mapTopicToDeviceId (utf16 ''zigbee2mqtt '') (utf16 ''zigbee2mqtt/lamp/state'') = Inr (Some (utf16 ''lamp''))"
  by code_simp

text \<open>
  The three examples of the specification, on the code and on the rule.
\<close>

theorem matchTopic_refines_witness:
  "matchTopic (utf16 ''devices/+/state'') (utf16 ''devices/lamp-1/state'') \<and>
   matchTopic_spec (utf16 ''devices/+/state'') (utf16 ''devices/lamp-1/state'') \<and>
   \<not> matchTopic (utf16 ''devices/+/state'') (utf16 ''devices/a/b/state'') \<and>
   \<not> matchTopic_spec (utf16 ''devices/+/state'') (utf16 ''devices/a/b/state'') \<and>
   matchTopic (utf16 ''zigbee2mqtt/#'') (utf16 ''zigbee2mqtt/floor1/lamp/state'') \<and>
   matchTopic_spec (utf16 ''zigbee2mqtt/#'') (utf16 ''zigbee2mqtt/floor1/lamp/state'')"
proof -
  have 1: "matchTopic (utf16 ''devices/+/state'') (utf16 ''devices/lamp-1/state'')"
    and 2: "\<not> matchTopic (utf16 ''devices/+/state'') (utf16 ''devices/a/b/state'')"
    and 3: "matchTopic (utf16 ''zigbee2mqtt/#'') (utf16 ''zigbee2mqtt/floor1/lamp/state'')"
    by code_simp+
  show ?thesis
    using 1 2 3
      matchTopic_refines [of "(utf16 ''devices/+/state'')" "(utf16 ''devices/lamp-1/state'')"]
      matchTopic_refines [of "(utf16 ''devices/+/state'')" "(utf16 ''devices/a/b/state'')"]
      matchTopic_refines [of "(utf16 ''zigbee2mqtt/#'')" "(utf16 ''zigbee2mqtt/floor1/lamp/state'')"]
    by blast
qed

section \<open>Resource URI\<close>





















section \<open>State merge\<close>

lemma map_of_setProperty: "map_of (setProperty k v obj) = (map_of obj)(k \<mapsto> v)"
  by (induction obj) auto

lemma map_of_Map_set: "map_of (Map_set k v m) = (map_of m)(k \<mapsto> v)"
  by (induction m) auto

lemma Map_keys_Map_set:
  "Map_keys (Map_set k v m) = (if k \<in> set (Map_keys m) then Map_keys m else Map_keys m @ [k])"
  by (induction m) (force simp: Map_keys_def)+

lemma length_Map_set:
  "length (Map_set k v m) = (if k \<in> fst ` set m then length m else Suc (length m))"
  by (induction m) force+

lemma mergeLoop_fresh:
  "mergeLoop es (length h) (h @ [obj]) = h @ [mergeEntries es obj]"
  by (induction es arbitrary: obj) (auto simp: mergeEntries_def)

lemma map_of_assignProperty:
  "map_of (assignProperty k v obj) =
     (if k = (utf16 ''__proto__'') \<and> map_of obj k = None then map_of obj else (map_of obj)(k \<mapsto> v))"
  by (auto simp: assignProperty_def map_of_setProperty)

lemma map_of_mergeEntries:
  "distinct (map fst es) \<Longrightarrow>
   map_of (mergeEntries es obj) k =
     (if k = (utf16 ''__proto__'') \<and> map_of obj k = None then None else merged obj es k)"
proof (induction es arbitrary: obj)
  case Nil
  show ?case by (auto simp: mergeEntries_def merged_def)
next
  case (Cons e es)
  obtain k0 v0 where e: "e = (k0, v0)" by (cases e)
  let ?obj' = "if v0 \<noteq> JUndefined then assignProperty k0 v0 obj else obj"
  have unfold: "mergeEntries (e # es) obj = mergeEntries es ?obj'"
    by (simp add: mergeEntries_def e)
  have IH: "map_of (mergeEntries es ?obj') k =
     (if k = (utf16 ''__proto__'') \<and> map_of ?obj' k = None then None else merged ?obj' es k)"
    using Cons by simp
  show ?case
  proof (cases "k = k0")
    case True
    then have none: "map_of es k = None"
      using Cons.prems e by (simp add: map_of_eq_None_iff)
    have "map_of (mergeEntries es ?obj') k = map_of ?obj' k"
      using IH none by (auto simp: merged_def)
    then show ?thesis
      using True e unfold by (auto simp: map_of_assignProperty merged_def)
  next
    case False
    then have same: "map_of ?obj' k = map_of obj k"
      by (simp add: map_of_assignProperty)
    have "merged ?obj' es k = merged obj es k"
      unfolding merged_def same ..
    moreover have "merged obj (e # es) k = merged obj es k"
      using False e by (simp add: merged_def)
    ultimately show ?thesis
      using unfold IH same by auto
  qed
qed

text \<open>
  The merge allocates a new object and leaves every existing object as it was. The own
  properties of the new object are those of the previous state, each own key of the
  patch with a value other than \<open>undefined\<close> overwritten by the patch's value (the value
  itself, a reference when it is an object: nothing is merged below the top level),
  with one exception: the key \<open>__proto__\<close>, when the previous state has no own property
  of that name, is not written.
\<close>

lemma mergeDeviceState_shallow_pure:
  assumes S: "S < length h" and P: "P < length h"
    and keys: "distinct (map fst (h ! P))"
  shows "\<exists>R. mergeDeviceState (JRef S) (JRef P) h = (Inr (JRef (length h)), h @ [R]) \<and>
             (\<forall>k. map_of R k =
                (if k = (utf16 ''__proto__'') \<and> map_of (h ! S) k = None then None
                 else merged (h ! S) (h ! P) k))"
proof -
  let ?R = "mergeEntries (h ! P) (h ! S)"
  have "mergeDeviceState (JRef S) (JRef P) h = (Inr (JRef (length h)), h @ [?R])"
    using S P
    by (simp add: mergeDeviceState_def validateStateObject_def Let_def nth_append mergeLoop_fresh)
  moreover have "\<forall>k. map_of ?R k =
                (if k = (utf16 ''__proto__'') \<and> map_of (h ! S) k = None then None
                 else merged (h ! S) (h ! P) k)"
    using map_of_mergeEntries [OF keys] by blast
  ultimately show ?thesis by blast
qed

text \<open>
  C1 fails on the code at a patch with the own key \<open>__proto__\<close>, such as
  \<open>JSON.parse\<close> builds from a message: the patch's value is not \<open>undefined\<close>, yet
  the object returned has no own property of that name.
\<close>

theorem mergeDeviceState_proto_key:
  "mergeDeviceState (JRef 0) (JRef 1)
     [[((utf16 ''power''), JStr (utf16 ''on''))],
      [((utf16 ''__proto__''), JRef 2), ((utf16 ''level''), JNum (Finite 3))],
      [((utf16 ''polluted''), JBool True)]] =
     (Inr (JRef 3),
      [[((utf16 ''power''), JStr (utf16 ''on''))],
       [((utf16 ''__proto__''), JRef 2), ((utf16 ''level''), JNum (Finite 3))],
       [((utf16 ''polluted''), JBool True)],
       [((utf16 ''power''), JStr (utf16 ''on'')), ((utf16 ''level''), JNum (Finite 3))]]) \<and>
   map_of [((utf16 ''__proto__''), JRef 2), ((utf16 ''level''), JNum (Finite 3))] (utf16 ''__proto__'') = Some (JRef 2) \<and>
   JRef 2 \<noteq> JUndefined \<and>
   map_of [((utf16 ''power''), JStr (utf16 ''on'')), ((utf16 ''level''), JNum (Finite 3))] (utf16 ''__proto__'') = None"
  by code_simp

section \<open>Adapter registry and device manager\<close>

lemma trim_empty_iff: "trim s = [] \<longleftrightarrow> (\<forall>c \<in> set s. isWhiteSpace c)"
proof -
  let ?u = "dropWhile isWhiteSpace s"
  have "trim s = [] \<longleftrightarrow> (\<forall>c \<in> set ?u. isWhiteSpace c)"
    by (simp add: trim_def)
  also have "\<dots> \<longleftrightarrow> ?u = []"
  proof
    assume all: "\<forall>c \<in> set ?u. isWhiteSpace c"
    show "?u = []"
    proof (rule ccontr)
      assume ne: "?u \<noteq> []"
      then have "\<not> isWhiteSpace (hd ?u)" by (rule hd_dropWhile)
      moreover have "hd ?u \<in> set ?u" using ne by (rule hd_in_set)
      ultimately show False using all by blast
    qed
  next
    assume "?u = []"
    then show "\<forall>c \<in> set ?u. isWhiteSpace c" by (metis empty_iff empty_set)
  qed
  also have "\<dots> \<longleftrightarrow> (\<forall>c \<in> set s. isWhiteSpace c)"
    by simp
  finally show ?thesis .
qed

lemma register_keeps:
  assumes "Map_get adapters nm = Some a"
  shows "Map_get (snd (register n x adapters)) nm = Some a"
proof (cases "n = nm")
  case True
  then have "Map_has adapters n" using assms by (simp add: Map_has_def Map_get_def)
  then show ?thesis using assms by (simp add: register_def)
next
  case False
  then show ?thesis
    using assms
    by (auto simp: register_def Map_get_def map_of_Map_set split: sum.splits)
qed

lemma register_all_keeps:
  "Map_get adapters nm = Some a \<Longrightarrow> Map_get (register_all others adapters) nm = Some a"
proof (induction others arbitrary: adapters)
  case Nil
  then show ?case by simp
next
  case (Cons c others)
  obtain n x where c: "c = (n, x)" by (cases c)
  show ?case
    using Cons.IH [OF register_keeps [OF Cons.prems, of n x]] c by simp
qed

text \<open>
  C7. Once \<open>register name adapter\<close> has succeeded, then after any further register
  calls, a register call with the same name throws the conflict error and returns the
  registry as it was: \<open>get name\<close> still gives the adapter registered first and the
  list of names is the same.
\<close>

theorem register_duplicate_rejected:
  assumes first: "register nm a adapters = (Inr (), adapters1)"
  shows "get nm (register_all others adapters1) = Some a \<and>
         register nm a' (register_all others adapters1) =
           (Inl (Error ''Adapter is already registered''),
            register_all others adapters1) \<and>
         get nm (snd (register nm a' (register_all others adapters1))) = Some a \<and>
         list (snd (register nm a' (register_all others adapters1))) =
           list (register_all others adapters1)"
proof -
  let ?later = "register_all others adapters1"
  have nm: "length (trim nm) \<noteq> 0" and set1: "adapters1 = Map_set nm a adapters"
    using first by (auto simp: register_def split: if_splits sum.splits)
  have "Map_get adapters1 nm = Some a"
    by (simp add: set1 Map_get_def map_of_Map_set)
  then have kept: "Map_get ?later nm = Some a" by (rule register_all_keeps)
  then have "Map_has ?later nm" by (simp add: Map_has_def Map_get_def)
  then have dup: "register nm a' ?later =
           (Inl (Error ''Adapter is already registered''), ?later)"
    using nm by (simp add: register_def)
  show ?thesis
    using kept dup by (simp add: get_def)
qed

theorem register_duplicate_rejected_witness:
  "register (utf16 ''mqtt'') (exampleAdapter (utf16 ''first'')) createAdapterRegistry =
     (Inr (), [((utf16 ''mqtt''), exampleAdapter (utf16 ''first''))]) \<and>
   register (utf16 ''mqtt'') (exampleAdapter (utf16 ''second''))
       (register_all [((utf16 ''http''), exampleAdapter (utf16 ''third''))] [((utf16 ''mqtt''), exampleAdapter (utf16 ''first''))]) =
     (Inl (Error ''Adapter is already registered''),
      [((utf16 ''mqtt''), exampleAdapter (utf16 ''first'')), ((utf16 ''http''), exampleAdapter (utf16 ''third''))])"
proof -
  have first: "register (utf16 ''mqtt'') (exampleAdapter (utf16 ''first'')) createAdapterRegistry =
     (Inr (), [((utf16 ''mqtt''), exampleAdapter (utf16 ''first''))])"
    by code_simp
  have later: "register_all [((utf16 ''http''), exampleAdapter (utf16 ''third''))] [((utf16 ''mqtt''), exampleAdapter (utf16 ''first''))] =
      [((utf16 ''mqtt''), exampleAdapter (utf16 ''first'')), ((utf16 ''http''), exampleAdapter (utf16 ''third''))]"
    by code_simp
  from register_duplicate_rejected [OF first, of "[((utf16 ''http''), exampleAdapter (utf16 ''third''))]"
      "exampleAdapter (utf16 ''second'')"]
  have "register (utf16 ''mqtt'') (exampleAdapter (utf16 ''second''))
       (register_all [((utf16 ''http''), exampleAdapter (utf16 ''third''))] [((utf16 ''mqtt''), exampleAdapter (utf16 ''first''))]) =
     (Inl (Error ''Adapter is already registered''),
      register_all [((utf16 ''http''), exampleAdapter (utf16 ''third''))] [((utf16 ''mqtt''), exampleAdapter (utf16 ''first''))])"
    by blast
  with first later show ?thesis by simp
qed

text \<open>
  C10. \<open>registerDevice\<close> throws a TypeError, without changing the directory, when the
  id is missing, empty or made of white space only. In every other case it succeeds,
  also when the id is already registered: the metadata stored under the id is then the
  new one, the other entries are unchanged, and an id that was present keeps its place,
  the number of devices being the same.
\<close>

theorem registerDevice_replaces:
  "((deviceId d = None \<or> (\<exists>i. deviceId d = Some i \<and> (\<forall>c \<in> set i. isWhiteSpace c))) \<longrightarrow>
      registerDevice d dm = (Inl (TypeError ''Device id must be a non-empty string''), dm)) \<and>
   (\<forall>i. deviceId d = Some i \<and> (\<exists>c \<in> set i. \<not> isWhiteSpace c) \<longrightarrow>
      (\<exists>dm'. registerDevice d dm = (Inr (), dm') \<and>
             getDevice i dm' = Some d \<and>
             (\<forall>j. j \<noteq> i \<longrightarrow> getDevice j dm' = getDevice j dm) \<and>
             (getDevice i dm \<noteq> None \<longrightarrow>
                map fst (devices dm') = map fst (devices dm) \<and>
                length (listDevices dm') = length (listDevices dm))))"
proof (intro conjI allI impI)
  assume "deviceId d = None \<or> (\<exists>i. deviceId d = Some i \<and> (\<forall>c \<in> set i. isWhiteSpace c))"
  then show "registerDevice d dm = (Inl (TypeError ''Device id must be a non-empty string''), dm)"
    using trim_empty_iff by (auto simp: registerDevice_def)
next
  fix i
  assume a: "deviceId d = Some i \<and> (\<exists>c \<in> set i. \<not> isWhiteSpace c)"
  then have ne: "i \<noteq> []" and tr: "trim i \<noteq> []"
    using trim_empty_iff [of i] by auto
  let ?dm' = "dm\<lparr>devices := Map_set i d (devices dm)\<rparr>"
  have run: "registerDevice d dm = (Inr (), ?dm')"
    using a ne tr by (simp add: registerDevice_def)
  have g: "getDevice i ?dm' = Some d"
    by (simp add: getDevice_def Map_get_def map_of_Map_set)
  have rest: "\<forall>j. j \<noteq> i \<longrightarrow> getDevice j ?dm' = getDevice j dm"
    by (simp add: getDevice_def Map_get_def map_of_Map_set)
  have same: "getDevice i dm \<noteq> None \<longrightarrow>
                map fst (devices ?dm') = map fst (devices dm) \<and>
                length (listDevices ?dm') = length (listDevices dm)"
  proof
    assume "getDevice i dm \<noteq> None"
    then have mem: "i \<in> fst ` set (devices dm)"
      by (simp add: getDevice_def Map_get_def map_of_eq_None_iff)
    then have "i \<in> set (Map_keys (devices dm))" by (simp add: Map_keys_def)
    then have "Map_keys (Map_set i d (devices dm)) = Map_keys (devices dm)"
      by (simp add: Map_keys_Map_set)
    then show "map fst (devices ?dm') = map fst (devices dm) \<and>
                length (listDevices ?dm') = length (listDevices dm)"
      using mem by (simp add: Map_keys_def listDevices_def Map_values_def length_Map_set)
  qed
  show "\<exists>dm'. registerDevice d dm = (Inr (), dm') \<and>
             getDevice i dm' = Some d \<and>
             (\<forall>j. j \<noteq> i \<longrightarrow> getDevice j dm' = getDevice j dm) \<and>
             (getDevice i dm \<noteq> None \<longrightarrow>
                map fst (devices dm') = map fst (devices dm) \<and>
                length (listDevices dm') = length (listDevices dm))"
    using run g rest same by blast
qed

theorem registerDevice_replaces_witness:
  "registerDevice (exampleDevice (Some (utf16 ''lamp'')) (utf16 ''new''))
      \<lparr>devices = [((utf16 ''lamp''), exampleDevice (Some (utf16 ''lamp'')) (utf16 ''old''))], stateStore = ()\<rparr> =
     (Inr (), \<lparr>devices = [((utf16 ''lamp''), exampleDevice (Some (utf16 ''lamp'')) (utf16 ''new''))], stateStore = ()\<rparr>) \<and>
   registerDevice (exampleDevice (Some (utf16 ''  '')) (utf16 ''new'')) \<lparr>devices = [], stateStore = ()\<rparr> =
     (Inl (TypeError ''Device id must be a non-empty string''), \<lparr>devices = [], stateStore = ()\<rparr>) \<and>
   registerDevice (exampleDevice None (utf16 ''new'')) \<lparr>devices = [], stateStore = ()\<rparr> =
     (Inl (TypeError ''Device id must be a non-empty string''), \<lparr>devices = [], stateStore = ()\<rparr>)"
proof -
  let ?dm = "\<lparr>devices = [((utf16 ''lamp''), exampleDevice (Some (utf16 ''lamp'')) (utf16 ''old''))], stateStore = ()\<rparr>"
  have 1: "registerDevice (exampleDevice (Some (utf16 ''lamp'')) (utf16 ''new'')) ?dm =
     (Inr (), \<lparr>devices = [((utf16 ''lamp''), exampleDevice (Some (utf16 ''lamp'')) (utf16 ''new''))], stateStore = ()\<rparr>)"
    by code_simp
  have 2: "registerDevice (exampleDevice (Some (utf16 ''  '')) (utf16 ''new'')) \<lparr>devices = [], stateStore = ()\<rparr> =
     (Inl (TypeError ''Device id must be a non-empty string''), \<lparr>devices = [], stateStore = ()\<rparr>)"
    by code_simp
  have 3: "deviceId (exampleDevice None (utf16 ''new'')) = None"
    by (simp add: exampleDevice_def)
  from registerDevice_replaces [of "exampleDevice None (utf16 ''new'')" "\<lparr>devices = [], stateStore = ()\<rparr>"] 3
  have "registerDevice (exampleDevice None (utf16 ''new'')) \<lparr>devices = [], stateStore = ()\<rparr> =
     (Inl (TypeError ''Device id must be a non-empty string''), \<lparr>devices = [], stateStore = ()\<rparr>)"
    by blast
  with 1 2 show ?thesis by simp
qed

section \<open>Retry\<close>

lemma invoked_append: "invoked (xs @ ys) = invoked xs @ invoked ys"
  by (induction xs rule: invoked.induct) auto

lemma slept_append: "slept (xs @ ys) = slept xs @ slept ys"
  by (induction xs rule: slept.induct) auto



lemma executeSingleAttempt_failure:
  assumes "op config s = (Inl e, s')"
  shows "\<exists>evs. executeSingleAttempt config att rnd s = (Failure e, s', Invoke att # evs) \<and>
               invoked evs = [] \<and>
               (if att = maxAttempts config then evs = []
                else length (slept evs) = 1 \<and> evs \<noteq> [] \<and> (\<exists>d. last evs = Sleep d))"
  using assms
  by (auto simp: executeSingleAttempt_def Let_def split: option.splits)

lemma retryLoop_failing:
  assumes fail: "\<And>s. isl (fst (op config s))"
    and "att \<le> maxAttempts config" and "n = maxAttempts config - att"
  shows "\<exists>tr'. retryLoop config rnd att le s tr =
             (Inl (Some (projl (fst (op config (((snd \<circ> op config) ^^ n) s))))),
              ((snd \<circ> op config) ^^ Suc n) s, tr') \<and>
           invoked tr' = invoked tr @ [att..<Suc (maxAttempts config)] \<and>
           length (slept tr') = length (slept tr) + n \<and>
           tr' \<noteq> [] \<and> last tr' = Invoke (maxAttempts config)"
  using assms(2,3)
proof (induction n arbitrary: att le s tr)
  case 0
  then have att: "att = maxAttempts config" by simp
  obtain e s' where o: "op config s = (Inl e, s')"
    using fail [of s] by (cases "op config s") (auto simp: isl_def)
  have single: "executeSingleAttempt config att rnd s = (Failure e, s', [Invoke att])"
    using executeSingleAttempt_failure [OF o, of att rnd] att by auto
  have stop: "retryLoop config rnd (att + 1) (Some e) s' (tr @ [Invoke att]) =
                (Inl (Some e), s', tr @ [Invoke att])"
    using att by (subst retryLoop.simps) simp
  have "retryLoop config rnd att le s tr = (Inl (Some e), s', tr @ [Invoke att])"
    using att single stop by (subst retryLoop.simps) simp
  then show ?case
    using o att by (simp add: invoked_append slept_append)
next
  case (Suc n)
  then have less: "att < maxAttempts config" and n: "n = maxAttempts config - (att + 1)"
    by simp_all
  obtain e s' where o: "op config s = (Inl e, s')"
    using fail [of s] by (cases "op config s") (auto simp: isl_def)
  from executeSingleAttempt_failure [OF o, of att rnd] less
  obtain evs where single: "executeSingleAttempt config att rnd s = (Failure e, s', Invoke att # evs)"
    and inv: "invoked evs = []" and sl: "length (slept evs) = 1"
    by auto
  have step: "retryLoop config rnd att le s tr =
                retryLoop config rnd (att + 1) (Some e) s' (tr @ Invoke att # evs)"
    using less single by (subst retryLoop.simps) simp
  have le': "att + 1 \<le> maxAttempts config" using less by simp
  from Suc.IH [OF le' n, of "Some e" s' "tr @ Invoke att # evs"]
  obtain tr' where r: "retryLoop config rnd (att + 1) (Some e) s' (tr @ Invoke att # evs) =
             (Inl (Some (projl (fst (op config (((snd \<circ> op config) ^^ n) s'))))),
              ((snd \<circ> op config) ^^ Suc n) s', tr')"
    and i: "invoked tr' = invoked (tr @ Invoke att # evs) @ [att + 1..<Suc (maxAttempts config)]"
    and l: "length (slept tr') = length (slept (tr @ Invoke att # evs)) + n"
    and t: "tr' \<noteq> []" "last tr' = Invoke (maxAttempts config)"
    by blast
  have s': "s' = (snd \<circ> op config) s" using o by simp
  have shift: "\<And>k. ((snd \<circ> op config) ^^ k) s' = ((snd \<circ> op config) ^^ Suc k) s"
    unfolding s' by (simp add: funpow_swap1)
  have upt: "[att..<Suc (maxAttempts config)] = att # [att + 1..<Suc (maxAttempts config)]"
    using less by (simp add: upt_conv_Cons)
  have r': "retryLoop config rnd att le s tr =
             (Inl (Some (projl (fst (op config (((snd \<circ> op config) ^^ Suc n) s))))),
              ((snd \<circ> op config) ^^ Suc (Suc n)) s, tr')"
    using step r by (simp only: shift)
  have i': "invoked tr' = invoked tr @ [att..<Suc (maxAttempts config)]"
    using i inv upt by (simp add: invoked_append del: upt_Suc)
  have l': "length (slept tr') = length (slept tr) + Suc n"
    using l sl by (simp add: slept_append)
  show ?case
    using r' i' l' t by blast
qed

text \<open>
  C3. With \<open>retries = r\<close> and an operation that fails on every invocation,
  \<open>withRetry\<close> invokes the operation \<open>r + 1\<close> times, as attempts 1 to \<open>r + 1\<close> in
  this order, each on the state the previous one left; it rejects with the error of the
  last invocation, unchanged; it sleeps \<open>r\<close> times and the last event of the run is
  the last invocation, not a sleep. With \<open>r = 0\<close> this is one attempt.
\<close>

theorem withRetry_always_failing:
  fixes operation :: "'s \<Rightarrow> ('e + 'a) \<times> 's" and r :: nat
  assumes fail: "\<forall>s. isl (fst (operation s))"
    and retries: "opt_retries opts = Some (Finite (of_nat r))"
    and valid: "validateRetryParams (Finite (of_nat r))
                  (withDefault (opt_baseMs opts) DEFAULT_BASE_MS)
                  (withDefault (opt_maxMs opts) DEFAULT_MAX_MS) = Inr ()"
  shows "\<exists>tr. withRetry operation opts rnd s =
           (Inl (LastError (Some (projl (fst (operation (((snd \<circ> operation) ^^ r) s)))))),
            ((snd \<circ> operation) ^^ (r + 1)) s, tr) \<and>
          invoked tr = [1..<r + 2] \<and> length (slept tr) = r \<and> last tr = Invoke (r + 1)"
proof -
  let ?b = "withDefault (opt_baseMs opts) DEFAULT_BASE_MS"
  let ?m = "withDefault (opt_maxMs opts) DEFAULT_MAX_MS"
  let ?config = "\<lparr>baseMs = finiteValue ?b, maxMs = finiteValue ?m,
                  jitter = withDefault (opt_jitter opts) True,
                  op = operation, maxAttempts = r + 1, onRetry = opt_onRetry opts\<rparr>"
  have ma: "nat \<lfloor>(of_nat r :: rat) + 1\<rfloor> = r + 1"
  proof -
    have "(of_nat r :: rat) + 1 = of_int (int r + 1)" by simp
    then have "\<lfloor>(of_nat r :: rat) + 1\<rfloor> = int r + 1" by (simp only: floor_of_int)
    then show ?thesis by simp
  qed
  have f: "\<And>s. isl (fst (op ?config s))" using fail by simp
  from retryLoop_failing [of ?config 1 r rnd None s "[]", OF f]
  obtain tr where run: "retryLoop ?config rnd 1 None s [] =
             (Inl (Some (projl (fst (operation (((snd \<circ> operation) ^^ r) s))))),
              ((snd \<circ> operation) ^^ Suc r) s, tr)"
    and i: "invoked tr = [1..<Suc (r + 1)]" and l: "length (slept tr) = r"
    and t: "last tr = Invoke (r + 1)"
    by auto
  have "withRetry operation opts rnd s =
          (Inl (LastError (Some (projl (fst (operation (((snd \<circ> operation) ^^ r) s)))))),
            ((snd \<circ> operation) ^^ (r + 1)) s, tr)"
    using retries valid run ma
    by (simp add: withRetry_def withDefault_def executeWithRetry_def Let_def del: funpow.simps)
  then show ?thesis
    using i l t by (auto simp del: funpow.simps)
qed

theorem withRetry_always_failing_witness:
  "(\<forall>s. isl (fst (alwaysFails s))) \<and>
   withRetry alwaysFails
     \<lparr>opt_retries = Some (Finite 2), opt_baseMs = None, opt_maxMs = None,
      opt_jitter = Some False, opt_onRetry = None\<rparr> (\<lambda>_. 0) 0 =
     (Inl (LastError (Some 2)), 3, [Invoke 1, Sleep 100, Invoke 2, Sleep 200, Invoke 3]) \<and>
   withRetry alwaysFails
     \<lparr>opt_retries = Some (Finite 0), opt_baseMs = None, opt_maxMs = None,
      opt_jitter = None, opt_onRetry = None\<rparr> (\<lambda>_. 0) 0 =
     (Inl (LastError (Some 0)), 1, [Invoke 1])"
proof -
  let ?opts = "\<lparr>opt_retries = Some (Finite (of_nat 2)), opt_baseMs = None, opt_maxMs = None,
      opt_jitter = Some False, opt_onRetry = None\<rparr> :: nat RetryOptions"
  have f: "\<forall>s. isl (fst (alwaysFails s))"
    by (simp add: alwaysFails_def)
  have v: "validateRetryParams (Finite (of_nat 2))
             (withDefault (opt_baseMs ?opts) DEFAULT_BASE_MS)
             (withDefault (opt_maxMs ?opts) DEFAULT_MAX_MS) = Inr ()"
    by (simp add: validateRetryParams_def withDefault_def DEFAULT_BASE_MS_def DEFAULT_MAX_MS_def)
  have run: "withRetry alwaysFails
     \<lparr>opt_retries = Some (Finite 2), opt_baseMs = None, opt_maxMs = None,
      opt_jitter = Some False, opt_onRetry = None\<rparr> (\<lambda>_. 0) 0 =
     (Inl (LastError (Some 2)), 3, [Invoke 1, Sleep 100, Invoke 2, Sleep 200, Invoke 3])"
    by code_simp
  have one: "withRetry alwaysFails
     \<lparr>opt_retries = Some (Finite 0), opt_baseMs = None, opt_maxMs = None,
      opt_jitter = None, opt_onRetry = None\<rparr> (\<lambda>_. 0) 0 =
     (Inl (LastError (Some 0)), 1, [Invoke 1])"
    by code_simp
  from withRetry_always_failing [OF f _ v, of "\<lambda>_. 0" 0]
  have "\<exists>tr. withRetry alwaysFails ?opts (\<lambda>_. 0) 0 =
           (Inl (LastError (Some (projl (fst (alwaysFails (((snd \<circ> alwaysFails) ^^ 2) 0)))))),
            ((snd \<circ> alwaysFails) ^^ (2 + 1)) 0, tr) \<and>
          invoked tr = [1..<2 + 2] \<and> length (slept tr) = 2 \<and> last tr = Invoke (2 + 1)"
    by simp
  with f run one show ?thesis by blast
qed



section \<open>Subscription restore\<close>

lemma listening_perform: "listening st \<Longrightarrow> listening (perform a st)"
proof (cases a)
  case Connect
  then show "listening st \<Longrightarrow> listening (perform a st)"
    by (auto simp: listening_def connect_def setupClientListeners_def split: option.splits)
next
  case (Emit ev)
  then show "listening st \<Longrightarrow> listening (perform a st)"
    by (cases ev)
      (auto simp: listening_def restoreSubscriptions_def Let_def split: option.splits)
next
  case (Subscribe t h e)
  then show "listening st \<Longrightarrow> listening (perform a st)"
    by (auto simp: listening_def subscribe_def Let_def split: option.splits)
next
  case (Publish t p e)
  then show "listening st \<Longrightarrow> listening (perform a st)"
    by (auto simp: listening_def publish_def Let_def split: option.splits)
next
  case (Disconnect e)
  then show "listening st \<Longrightarrow> listening (perform a st)"
    by (auto simp: listening_def disconnect_def Let_def split: option.splits)
qed

lemma listening_run: "listening st \<Longrightarrow> listening (run acts st)"
  unfolding run_def
  by (induction acts arbitrary: st) (simp_all add: listening_perform)

lemma listening_initial: "listening createMqttClient"
  by (simp add: listening_def createMqttClient_def)

text \<open>
  C9. In every state a client can reach by method calls and transport events, if it has
  a transport, a \<open>reconnect\<close> event makes the client call \<open>subscribe\<close> on the transport
  once with all the topics of its subscription table (and not at all when the table is
  empty), without changing the table: every topic of the table is in the last call the
  transport received.
\<close>

theorem reconnect_restores_subscriptions:
  assumes st: "st = run acts createMqttClient" and cur: "current st = Some c"
  shows "\<exists>c'. current (emit EvReconnect st) = Some c' \<and>
           subscriptions (emit EvReconnect st) = subscriptions st \<and>
           calls c' = calls c @
             (if subscriptions st = [] then []
              else [SubscribeTopics (map fst (subscriptions st))]) \<and>
           (\<forall>topic \<in> set (map fst (subscriptions st)).
              \<exists>topics. last (calls c') = SubscribeTopics topics \<and> topic \<in> set topics)"
proof -
  have "listening st" unfolding st by (rule listening_run [OF listening_initial])
  then have on: "onReconnect c" using cur by (simp add: listening_def)
  let ?c' = "restoreSubscriptions (subscriptions st) c"
  have 1: "current (emit EvReconnect st) = Some ?c'"
    and 2: "subscriptions (emit EvReconnect st) = subscriptions st"
    using cur on by simp_all
  have 3: "calls ?c' = calls c @
             (if subscriptions st = [] then []
              else [SubscribeTopics (map fst (subscriptions st))])"
    by (simp add: restoreSubscriptions_def Map_keys_def Let_def)
  have 4: "\<forall>topic \<in> set (map fst (subscriptions st)).
              \<exists>topics. last (calls ?c') = SubscribeTopics topics \<and> topic \<in> set topics"
  proof
    fix topic
    assume t: "topic \<in> set (map fst (subscriptions st))"
    then have "subscriptions st \<noteq> []" by auto
    then have "last (calls ?c') = SubscribeTopics (map fst (subscriptions st))"
      using 3 by simp
    with t show "\<exists>topics. last (calls ?c') = SubscribeTopics topics \<and> topic \<in> set topics"
      by blast
  qed
  show ?thesis
    using 1 2 3 4 by blast
qed

theorem reconnect_restores_subscriptions_witness:
  "current (run exampleSession createMqttClient) =
     Some \<lparr>connectedFlag = False, onceConnect = False, onceError = True, onReconnect = True,
           onMessage = True,
           calls = [SubscribeTopic (utf16 ''devices/+/state''), SubscribeTopic (utf16 ''zigbee2mqtt/#''),
                    SubscribeTopics [(utf16 ''devices/+/state''), (utf16 ''zigbee2mqtt/#'')]]\<rparr> \<and>
   current (emit EvReconnect (run exampleSession createMqttClient)) =
     Some \<lparr>connectedFlag = False, onceConnect = False, onceError = True, onReconnect = True,
           onMessage = True,
           calls = [SubscribeTopic (utf16 ''devices/+/state''), SubscribeTopic (utf16 ''zigbee2mqtt/#''),
                    SubscribeTopics [(utf16 ''devices/+/state''), (utf16 ''zigbee2mqtt/#'')],
                    SubscribeTopics [(utf16 ''devices/+/state''), (utf16 ''zigbee2mqtt/#'')]]\<rparr>"
proof -
  let ?c = "\<lparr>connectedFlag = False, onceConnect = False, onceError = True, onReconnect = True,
           onMessage = True,
           calls = [SubscribeTopic (utf16 ''devices/+/state''), SubscribeTopic (utf16 ''zigbee2mqtt/#''),
                    SubscribeTopics [(utf16 ''devices/+/state''), (utf16 ''zigbee2mqtt/#'')]]\<rparr>"
  have cur: "current (run exampleSession createMqttClient) = Some ?c"
    by code_simp
  have subs: "subscriptions (run exampleSession createMqttClient) =
                [((utf16 ''devices/+/state''), 1), ((utf16 ''zigbee2mqtt/#''), 2)]"
    by code_simp
  from reconnect_restores_subscriptions [OF refl cur]
  obtain c' where "current (emit EvReconnect (run exampleSession createMqttClient)) = Some c'"
    and "calls c' = calls ?c @
             (if subscriptions (run exampleSession createMqttClient) = [] then []
              else [SubscribeTopics (map fst (subscriptions (run exampleSession createMqttClient)))])"
    by blast
  moreover have "current (emit EvReconnect (run exampleSession createMqttClient)) =
     Some (?c\<lparr>calls := calls ?c @ [SubscribeTopics [(utf16 ''devices/+/state''), (utf16 ''zigbee2mqtt/#'')]]\<rparr>)"
    by code_simp
  ultimately show ?thesis
    using cur by simp
qed

end
